theory Spec2Isabelle
  imports Main
begin

section \<open>Python values and \<open>queue.Queue\<close>\<close>

text \<open>
  The values that travel through the buffers and the wire protocol: \<open>None\<close>, booleans,
  integers and strings (the scalar values \<open>json.loads\<close> produces; floats, lists and nested
  objects are left out). A request is the dictionary \<open>json.loads\<close> returns, a finite map
  from keys to values; a response is the dictionary literal the handler builds, kept as
  the list of its entries.
\<close>

datatype pyval = PyNone | PyBool bool | PyInt int | PyStr string

type_synonym request = "string \<rightharpoonup> pyval"

type_synonym response = "(string \<times> pyval) list"

text \<open>\<open>d.get(key, default)\<close>; \<open>d.get(key)\<close> is \<open>d.get(key, None)\<close>.\<close>

definition dict_get :: "request \<Rightarrow> string \<Rightarrow> pyval \<Rightarrow> pyval" where
  "dict_get d k dflt = (case d k of None \<Rightarrow> dflt | Some v \<Rightarrow> v)"

text \<open>\<open>str(v)\<close>, which an f-string applies to the values it interpolates.\<close>

function nat_digits :: "nat \<Rightarrow> string" where
  "nat_digits n =
     (if n < 10 then [''0123456789'' ! n]
      else nat_digits (n div 10) @ [''0123456789'' ! (n mod 10)])"
  by pat_completeness auto
termination
  by (relation "measure id") auto

definition py_str :: "pyval \<Rightarrow> string" where
  "py_str v =
     (case v of
        PyNone \<Rightarrow> ''None''
      | PyBool b \<Rightarrow> (if b then ''True'' else ''False'')
      | PyInt i \<Rightarrow> (if i < 0 then ''-'' @ nat_digits (nat (- i)) else nat_digits (nat i))
      | PyStr s \<Rightarrow> s)"

text \<open>
  \<open>queue.Queue(maxsize)\<close> of the standard library: a FIFO queue, here its \<open>maxsize\<close> and
  the list of its items, oldest first. \<open>full()\<close> is \<open>0 < maxsize <= qsize()\<close>, so a queue
  built with \<open>maxsize <= 0\<close> is never full. \<open>put(item)\<close> without a timeout waits while the
  queue is full and \<open>get()\<close> waits while it is empty; with no other thread to change the
  queue such a wait never ends, and the result \<open>None\<close> stands for that: the call does
  not return.
\<close>

record 'a Queue =
  maxsize :: int
  items :: "'a list"

definition Queue_init :: "int \<Rightarrow> 'a Queue" where
  "Queue_init m = \<lparr> maxsize = m, items = [] \<rparr>"

definition qsize :: "'a Queue \<Rightarrow> int" where
  "qsize q = int (length (items q))"

definition Queue_full :: "'a Queue \<Rightarrow> bool" where
  "Queue_full q \<longleftrightarrow> 0 < maxsize q \<and> maxsize q \<le> qsize q"

definition Queue_empty :: "'a Queue \<Rightarrow> bool" where
  "Queue_empty q \<longleftrightarrow> qsize q = 0"

definition Queue_put :: "'a Queue \<Rightarrow> 'a \<Rightarrow> 'a Queue option" where
  "Queue_put q item = (if Queue_full q then None else Some (q\<lparr>items := items q @ [item]\<rparr>))"

definition Queue_get :: "'a Queue \<Rightarrow> ('a \<times> 'a Queue) option" where
  "Queue_get q = (case items q of [] \<Rightarrow> None | x # rest \<Rightarrow> Some (x, q\<lparr>items := rest\<rparr>))"

section \<open>The local engine: \<open>SharedBuffer\<close>\<close>

text \<open>
  \<open>class SharedBuffer\<close> owns a \<open>queue.Queue(maxsize=size)\<close>, three semaphores (\<open>mutex\<close>,
  \<open>empty\<close>, \<open>full\<close>), two counters and an inner \<open>threading.Lock\<close> (\<open>_lock\<close>) around the
  counter updates. A semaphore is its counter, a natural number. The fields \<open>empty\<close> and
  \<open>full\<close> carry the suffix \<open>_sem\<close>; \<open>_lock\<close> is \<open>lock_held\<close>. The stop event, which \<open>insert\<close>
  and \<open>remove\<close> never read, is left out.
\<close>

record SharedBuffer =
  buffer :: "int Queue"
  mutex :: nat
  empty_sem :: nat
  full_sem :: nat
  produced_count :: int
  consumed_count :: int
  lock_held :: bool

datatype py_error = ValueError

text \<open>
  \<open>SharedBuffer.__init__(size)\<close>. \<open>queue.Queue\<close> accepts every \<open>maxsize\<close>;
  \<open>threading.Semaphore(size)\<close> raises \<open>ValueError\<close> for a negative initial value.
\<close>

definition SharedBuffer_init :: "int \<Rightarrow> py_error + SharedBuffer" where
  "SharedBuffer_init sz =
     (if sz < 0 then Inl ValueError
      else Inr \<lparr> buffer = Queue_init sz, mutex = 1, empty_sem = nat sz, full_sem = 0,
                 produced_count = 0, consumed_count = 0, lock_held = False \<rparr>)"

text \<open>
  \<open>Semaphore.acquire(timeout=T)\<close> run while no other thread releases: it takes a permit
  when the counter is positive and times out (\<open>None\<close>) when the counter is zero.
  \<open>Semaphore.release()\<close> adds one permit; the semaphores are not bounded ones.
\<close>

definition sem_acquire :: "nat \<Rightarrow> nat option" where
  "sem_acquire v = (if v = 0 then None else Some (v - 1))"

definition sem_release :: "nat \<Rightarrow> nat" where
  "sem_release v = v + 1"

text \<open>
  \<open>SharedBuffer.insert(item)\<close>, one call run to its return with no other thread running.
  The \<open>finally\<close> block releases \<open>mutex\<close> and then \<open>full\<close> after the critical section.
  \<open>with self._lock\<close> waits for the inner lock, for ever when it is held at that point.
\<close>

definition SharedBuffer_insert :: "SharedBuffer \<Rightarrow> int \<Rightarrow> (SharedBuffer \<times> bool) option" where
  "SharedBuffer_insert b item =
     (case sem_acquire (empty_sem b) of
        None \<Rightarrow> Some (b, False)
      | Some e \<Rightarrow>
          let b1 = b\<lparr>empty_sem := e\<rparr> in
          (case sem_acquire (mutex b1) of
             None \<Rightarrow> Some (b1\<lparr>empty_sem := sem_release (empty_sem b1)\<rparr>, False)
           | Some m \<Rightarrow>
               let b2 = b1\<lparr>mutex := m\<rparr> in
               (case Queue_put (buffer b2) item of
                  None \<Rightarrow> None
                | Some q \<Rightarrow>
                    let b3 = b2\<lparr>buffer := q\<rparr> in
                    if lock_held b3 then None
                    else
                      let b4 = b3\<lparr>produced_count := produced_count b3 + 1\<rparr>;
                          b5 = b4\<lparr>mutex := sem_release (mutex b4)\<rparr>;
                          b6 = b5\<lparr>full_sem := sem_release (full_sem b5)\<rparr>
                      in Some (b6, True))))"

text \<open>\<open>SharedBuffer.remove()\<close>, symmetric: the \<open>full\<close> gate, the \<open>mutex\<close> gate, \<open>get()\<close>.\<close>

definition SharedBuffer_remove :: "SharedBuffer \<Rightarrow> (SharedBuffer \<times> int option) option" where
  "SharedBuffer_remove b =
     (case sem_acquire (full_sem b) of
        None \<Rightarrow> Some (b, None)
      | Some f \<Rightarrow>
          let b1 = b\<lparr>full_sem := f\<rparr> in
          (case sem_acquire (mutex b1) of
             None \<Rightarrow> Some (b1\<lparr>full_sem := sem_release (full_sem b1)\<rparr>, None)
           | Some m \<Rightarrow>
               let b2 = b1\<lparr>mutex := m\<rparr> in
               (case Queue_get (buffer b2) of
                  None \<Rightarrow> None
                | Some (item, q) \<Rightarrow>
                    let b3 = b2\<lparr>buffer := q\<rparr> in
                    if lock_held b3 then None
                    else
                      let b4 = b3\<lparr>consumed_count := consumed_count b3 + 1\<rparr>;
                          b5 = b4\<lparr>mutex := sem_release (mutex b4)\<rparr>;
                          b6 = b5\<lparr>empty_sem := sem_release (empty_sem b5)\<rparr>
                      in Some (b6, Some item))))"

text \<open>\<open>get_size\<close>, \<open>is_full\<close>, \<open>is_empty\<close> read the queue.\<close>

definition get_size :: "SharedBuffer \<Rightarrow> int" where
  "get_size b = qsize (buffer b)"

definition is_full :: "SharedBuffer \<Rightarrow> bool" where
  "is_full b = Queue_full (buffer b)"

definition is_empty :: "SharedBuffer \<Rightarrow> bool" where
  "is_empty b = Queue_empty (buffer b)"

text \<open>
  A sequence of calls made one after the other on the same buffer, as
  \<open>demonstrate_semaphore_workflow\<close> makes them; the results are collected in call order.
\<close>

datatype call = Insert int | Remove

datatype outcome = Inserted bool | Removed "int option"

fun run_calls :: "SharedBuffer \<Rightarrow> call list \<Rightarrow> (SharedBuffer \<times> outcome list) option" where
  "run_calls b [] = Some (b, [])"
| "run_calls b (Insert item # cs) =
     (case SharedBuffer_insert b item of
        None \<Rightarrow> None
      | Some (b', r) \<Rightarrow>
          (case run_calls b' cs of
             None \<Rightarrow> None
           | Some (b'', rs) \<Rightarrow> Some (b'', Inserted r # rs)))"
| "run_calls b (Remove # cs) =
     (case SharedBuffer_remove b of
        None \<Rightarrow> None
      | Some (b', r) \<Rightarrow>
          (case run_calls b' cs of
             None \<Rightarrow> None
           | Some (b'', rs) \<Rightarrow> Some (b'', Removed r # rs)))"

section \<open>The local engine, thread by thread\<close>

text \<open>
  Several threads call \<open>insert\<close> and \<open>remove\<close> on one \<open>SharedBuffer\<close> at the same time. A
  thread is at one of the places below; each place names the statement of the source the
  thread executes next. An operation on a semaphore, on the queue or on a counter is one
  indivisible step (each is guarded by the lock of its own object); the steps of
  different threads interleave in any order.

  \<^item> \<open>Idle r\<close>: outside a call; \<open>r\<close> is what the last call returned.
  \<^item> \<open>Ins_empty item\<close>: \<open>insert(item)\<close>, at \<open>self.empty.acquire(timeout=...)\<close>.
  \<^item> \<open>Ins_mutex item\<close>: at \<open>self.mutex.acquire(timeout=...)\<close>, with an empty-slot permit.
  \<^item> \<open>Ins_giveback\<close>: the mutex timed out, at \<open>self.empty.release()\<close>.
  \<^item> \<open>Ins_put item\<close>: at \<open>self.buffer.put(item)\<close>.
  \<^item> \<open>Ins_count\<close>: at \<open>with self._lock: self.produced_count += 1\<close>.
  \<^item> \<open>Ins_unlock\<close>: in the \<open>finally\<close> block, at \<open>self.mutex.release()\<close>.
  \<^item> \<open>Ins_signal\<close>: at \<open>self.full.release()\<close>.
  \<^item> \<open>Rem_full\<close> to \<open>Rem_signal item\<close>: the same places of \<open>remove()\<close>; from \<open>get()\<close> on
    the thread carries the item it took.
\<close>

datatype pc =
    Idle "outcome option"
  | Ins_empty int
  | Ins_mutex int
  | Ins_giveback
  | Ins_put int
  | Ins_count
  | Ins_unlock
  | Ins_signal
  | Rem_full
  | Rem_mutex
  | Rem_giveback
  | Rem_get
  | Rem_count int
  | Rem_unlock int
  | Rem_signal int

text \<open>
  The next step of a thread at a given place. \<open>acquire(timeout=...)\<close> takes a permit when
  the counter is positive and can time out only when it finds the counter at zero; a
  thread that waits instead is a thread that is not scheduled. \<open>None\<close> is a thread that
  cannot move now: it is idle, or it waits in \<open>put\<close>, \<open>get\<close> or for \<open>_lock\<close>.
\<close>

fun thread_step :: "SharedBuffer \<Rightarrow> pc \<Rightarrow> (SharedBuffer \<times> pc) option" where
  "thread_step b (Idle r) = None"
| "thread_step b (Ins_empty item) =
     (case sem_acquire (empty_sem b) of
        None \<Rightarrow> Some (b, Idle (Some (Inserted False)))
      | Some e \<Rightarrow> Some (b\<lparr>empty_sem := e\<rparr>, Ins_mutex item))"
| "thread_step b (Ins_mutex item) =
     (case sem_acquire (mutex b) of
        None \<Rightarrow> Some (b, Ins_giveback)
      | Some m \<Rightarrow> Some (b\<lparr>mutex := m\<rparr>, Ins_put item))"
| "thread_step b Ins_giveback =
     Some (b\<lparr>empty_sem := sem_release (empty_sem b)\<rparr>, Idle (Some (Inserted False)))"
| "thread_step b (Ins_put item) =
     (case Queue_put (buffer b) item of
        None \<Rightarrow> None
      | Some q \<Rightarrow> Some (b\<lparr>buffer := q\<rparr>, Ins_count))"
| "thread_step b Ins_count =
     (if lock_held b then None
      else Some (b\<lparr>produced_count := produced_count b + 1\<rparr>, Ins_unlock))"
| "thread_step b Ins_unlock = Some (b\<lparr>mutex := sem_release (mutex b)\<rparr>, Ins_signal)"
| "thread_step b Ins_signal =
     Some (b\<lparr>full_sem := sem_release (full_sem b)\<rparr>, Idle (Some (Inserted True)))"
| "thread_step b Rem_full =
     (case sem_acquire (full_sem b) of
        None \<Rightarrow> Some (b, Idle (Some (Removed None)))
      | Some f \<Rightarrow> Some (b\<lparr>full_sem := f\<rparr>, Rem_mutex))"
| "thread_step b Rem_mutex =
     (case sem_acquire (mutex b) of
        None \<Rightarrow> Some (b, Rem_giveback)
      | Some m \<Rightarrow> Some (b\<lparr>mutex := m\<rparr>, Rem_get))"
| "thread_step b Rem_giveback =
     Some (b\<lparr>full_sem := sem_release (full_sem b)\<rparr>, Idle (Some (Removed None)))"
| "thread_step b Rem_get =
     (case Queue_get (buffer b) of
        None \<Rightarrow> None
      | Some (item, q) \<Rightarrow> Some (b\<lparr>buffer := q\<rparr>, Rem_count item))"
| "thread_step b (Rem_count item) =
     (if lock_held b then None
      else Some (b\<lparr>consumed_count := consumed_count b + 1\<rparr>, Rem_unlock item))"
| "thread_step b (Rem_unlock item) =
     Some (b\<lparr>mutex := sem_release (mutex b)\<rparr>, Rem_signal item)"
| "thread_step b (Rem_signal item) =
     Some (b\<lparr>empty_sem := sem_release (empty_sem b)\<rparr>, Idle (Some (Removed (Some item))))"

text \<open>One thread run alone until it is idle again, for at most \<open>fuel\<close> steps.\<close>

fun run_thread :: "nat \<Rightarrow> SharedBuffer \<Rightarrow> pc \<Rightarrow> (SharedBuffer \<times> pc) option" where
  "run_thread fuel b (Idle r) = Some (b, Idle r)"
| "run_thread 0 b p = None"
| "run_thread (Suc fuel) b p =
     (case thread_step b p of
        None \<Rightarrow> None
      | Some (b', p') \<Rightarrow> run_thread fuel b' p')"

text \<open>
  The configurations that \<open>n\<close> threads can reach on a buffer built by \<open>SharedBuffer(C)\<close>:
  any idle thread may start a call, any thread may take its next step.
\<close>

inductive reachable :: "int \<Rightarrow> nat \<Rightarrow> SharedBuffer \<times> pc list \<Rightarrow> bool" where
  init: "SharedBuffer_init C = Inr b \<Longrightarrow> reachable C n (b, replicate n (Idle None))"
| call_insert: "reachable C n (b, ts) \<Longrightarrow> i < length ts \<Longrightarrow> ts ! i = Idle r \<Longrightarrow>
     reachable C n (b, ts[i := Ins_empty item])"
| call_remove: "reachable C n (b, ts) \<Longrightarrow> i < length ts \<Longrightarrow> ts ! i = Idle r \<Longrightarrow>
     reachable C n (b, ts[i := Rem_full])"
| run: "reachable C n (b, ts) \<Longrightarrow> i < length ts \<Longrightarrow> thread_step b (ts ! i) = Some (b', p) \<Longrightarrow>
     reachable C n (b', ts[i := p])"

text \<open>A thread outside a call.\<close>

fun idle :: "pc \<Rightarrow> bool" where
  "idle (Idle r) = True"
| "idle p = False"

text \<open>A schedule names, step by step, the thread that starts a call or moves.\<close>

datatype choice = Call nat call | Run nat

fun perform :: "SharedBuffer \<times> pc list \<Rightarrow> choice \<Rightarrow> (SharedBuffer \<times> pc list) option" where
  "perform (b, ts) (Call i c) =
     (if i < length ts \<and> idle (ts ! i) then
        Some (b, ts[i := (case c of Insert item \<Rightarrow> Ins_empty item | Remove \<Rightarrow> Rem_full)])
      else None)"
| "perform (b, ts) (Run i) =
     (if i < length ts then
        (case thread_step b (ts ! i) of
           None \<Rightarrow> None
         | Some (b', p) \<Rightarrow> Some (b', ts[i := p]))
      else None)"

fun schedule :: "SharedBuffer \<times> pc list \<Rightarrow> choice list \<Rightarrow> (SharedBuffer \<times> pc list) option" where
  "schedule cfg [] = Some cfg"
| "schedule cfg (c # cs) =
     (case perform cfg c of None \<Rightarrow> None | Some cfg' \<Rightarrow> schedule cfg' cs)"

text \<open>
  Bookkeeping for the invariants. \<open>held p\<close> is the number of slot permits (of \<open>empty\<close> or
  of \<open>full\<close>) a thread at \<open>p\<close> has taken and not yet returned or passed on.
  \<open>slot_in_hand p\<close> is 1 when the thread has a slot of the buffer reserved that is neither
  counted by \<open>empty\<close> nor occupied by an item: an inserting thread between its \<open>empty\<close>
  permit and its \<open>put\<close>, a removing thread between its \<open>get\<close> and its release of \<open>empty\<close>.
  \<open>unsignalled p\<close> is 1 when an item is in the queue that \<open>full\<close> does not count: put by
  this thread and not yet signalled, or claimed by this thread's \<open>full\<close> permit and not yet
  taken.
\<close>

fun held :: "pc \<Rightarrow> int" where
  "held (Idle r) = 0"
| "held (Ins_empty item) = 0"
| "held Rem_full = 0"
| "held p = 1"

fun slot_in_hand :: "pc \<Rightarrow> int" where
  "slot_in_hand (Ins_mutex item) = 1"
| "slot_in_hand Ins_giveback = 1"
| "slot_in_hand (Ins_put item) = 1"
| "slot_in_hand (Rem_count item) = 1"
| "slot_in_hand (Rem_unlock item) = 1"
| "slot_in_hand (Rem_signal item) = 1"
| "slot_in_hand p = 0"

fun unsignalled :: "pc \<Rightarrow> int" where
  "unsignalled Ins_count = 1"
| "unsignalled Ins_unlock = 1"
| "unsignalled Ins_signal = 1"
| "unsignalled Rem_mutex = 1"
| "unsignalled Rem_giveback = 1"
| "unsignalled Rem_get = 1"
| "unsignalled p = 0"

section \<open>The networked engine: \<open>SharedBufferServer\<close>\<close>

text \<open>
  The server owns a \<open>queue.Queue(maxsize=buffer_size)\<close> and one \<open>threading.Lock\<close>; its
  queue field is \<open>server_buffer\<close> here. \<open>producer_count\<close> and \<open>consumer_count\<close> are set at
  construction and never written again. Host and port play no part in request handling.
\<close>

record SharedBufferServer =
  buffer_size :: int
  server_buffer :: "pyval Queue"
  lock :: bool
  producer_count :: int
  consumer_count :: int

definition SharedBufferServer_init :: "int \<Rightarrow> SharedBufferServer" where
  "SharedBufferServer_init bs =
     \<lparr> buffer_size = bs, server_buffer = Queue_init bs, lock = False,
       producer_count = 0, consumer_count = 0 \<rparr>"

text \<open>
  \<open>handle_producer\<close>: the block under \<open>with self.lock\<close>, and the response it sends. The
  call waits for the lock first; run alone, it never returns when the lock is held.
\<close>

definition handle_producer ::
  "SharedBufferServer \<Rightarrow> request \<Rightarrow> (SharedBufferServer \<times> response) option" where
  "handle_producer s req =
     (let producer_id = dict_get req ''id'' (PyStr ''unknown'');
          item = dict_get req ''item'' PyNone
      in if lock s then None
         else if Queue_full (server_buffer s) then
           Some (s, [(''status'', PyStr ''error''),
                     (''message'', PyStr ''Buffer is full. Try again later.'')])
         else
           (case Queue_put (server_buffer s) item of
              None \<Rightarrow> None
            | Some q \<Rightarrow>
                let s' = s\<lparr>server_buffer := q\<rparr> in
                Some (s', [(''status'', PyStr ''success''),
                           (''message'',
                              PyStr (''Item '' @ [CHR 0x22] @ py_str item @ [CHR 0x22]
                                     @ '' added to buffer'')),
                           (''buffer_size'', PyInt (qsize (server_buffer s')))])))"

text \<open>\<open>handle_consumer\<close>, in the same way.\<close>

definition handle_consumer ::
  "SharedBufferServer \<Rightarrow> request \<Rightarrow> (SharedBufferServer \<times> response) option" where
  "handle_consumer s req =
     (let consumer_id = dict_get req ''id'' (PyStr ''unknown'')
      in if lock s then None
         else if Queue_empty (server_buffer s) then
           Some (s, [(''status'', PyStr ''error''),
                     (''message'', PyStr ''Buffer is empty. No items to consume.'')])
         else
           (case Queue_get (server_buffer s) of
              None \<Rightarrow> None
            | Some (item, q) \<Rightarrow>
                let s' = s\<lparr>server_buffer := q\<rparr> in
                Some (s', [(''status'', PyStr ''success''),
                           (''item'', item),
                           (''message'',
                              PyStr (''Item '' @ [CHR 0x22] @ py_str item @ [CHR 0x22]
                                     @ '' consumed'')),
                           (''buffer_size'', PyInt (qsize (server_buffer s')))])))"

text \<open>
  What \<open>handle_client\<close> reads from the socket: nothing (the peer closed), bytes that
  \<open>json.loads\<close> rejects, a JSON value that is not an object (its \<open>.get\<close> raises), or a
  request dictionary. The first returns at once and the next two raise into the
  \<open>except\<close> clause: in all three the connection is closed with no reply sent.
\<close>

datatype received = NoData | Unparsable | NotAnObject | Request request

definition handle_client ::
  "SharedBufferServer \<Rightarrow> received \<Rightarrow> (SharedBufferServer \<times> response option) option" where
  "handle_client s data =
     (case data of
        NoData \<Rightarrow> Some (s, None)
      | Unparsable \<Rightarrow> Some (s, None)
      | NotAnObject \<Rightarrow> Some (s, None)
      | Request req \<Rightarrow>
          let client_type = dict_get req ''type'' PyNone in
          if client_type = PyStr ''producer'' then
            map_option (\<lambda>(s', r). (s', Some r)) (handle_producer s req)
          else if client_type = PyStr ''consumer'' then
            map_option (\<lambda>(s', r). (s', Some r)) (handle_consumer s req)
          else
            Some (s, Some [(''status'', PyStr ''error''),
                           (''message'', PyStr ''Invalid client type'')]))"

text \<open>The connections the accept loop of \<open>start\<close> hands over, served one after the other.\<close>

fun serve ::
  "SharedBufferServer \<Rightarrow> received list \<Rightarrow> (SharedBufferServer \<times> response option list) option"
where
  "serve s [] = Some (s, [])"
| "serve s (d # ds) =
     (case handle_client s d of
        None \<Rightarrow> None
      | Some (s', r) \<Rightarrow>
          (case serve s' ds of
             None \<Rightarrow> None
           | Some (s'', rs) \<Rightarrow> Some (s'', r # rs)))"

section \<open>The networked engine, handler by handler\<close>

text \<open>
  \<open>start\<close> accepts connections and gives each to a thread of its own that runs
  \<open>handle_client\<close>. A handler is at one of the places below.

  \<^item> \<open>Recv d\<close>: \<open>handle_client\<close> has read \<open>d\<close> and is about to parse and dispatch it.
  \<^item> \<open>Prod_lock req\<close>: \<open>handle_producer\<close>, at \<open>with self.lock\<close>, waiting for the lock.
  \<^item> \<open>Prod_check item\<close>: inside the block, at \<open>if self.buffer.full()\<close>.
  \<^item> \<open>Prod_put item\<close>: at \<open>self.buffer.put(item)\<close>.
  \<^item> \<open>Prod_reply item\<close>: building the success response, which reads \<open>qsize()\<close>.
  \<^item> \<open>Prod_unlock r\<close>: at the end of the block, which releases the lock; \<open>r\<close> is the
    response.
  \<^item> \<open>Cons_lock req\<close> to \<open>Cons_unlock r\<close>: the same places of \<open>handle_consumer\<close>.
  \<^item> \<open>Closed r\<close>: the response was sent, if there was one, and the socket is closed.
\<close>

datatype hpc =
    Recv received
  | Prod_lock request
  | Prod_check pyval
  | Prod_put pyval
  | Prod_reply pyval
  | Prod_unlock response
  | Cons_lock request
  | Cons_check
  | Cons_get
  | Cons_reply pyval
  | Cons_unlock response
  | Closed "response option"

text \<open>
  The next step of a handler. \<open>None\<close> is a handler that cannot move now: it waits for
  the lock or in \<open>put\<close> or \<open>get\<close>, or it has finished.
\<close>

fun handler_step :: "SharedBufferServer \<Rightarrow> hpc \<Rightarrow> (SharedBufferServer \<times> hpc) option" where
  "handler_step s (Recv NoData) = Some (s, Closed None)"
| "handler_step s (Recv Unparsable) = Some (s, Closed None)"
| "handler_step s (Recv NotAnObject) = Some (s, Closed None)"
| "handler_step s (Recv (Request req)) =
     (let client_type = dict_get req ''type'' PyNone in
      if client_type = PyStr ''producer'' then Some (s, Prod_lock req)
      else if client_type = PyStr ''consumer'' then Some (s, Cons_lock req)
      else Some (s, Closed (Some [(''status'', PyStr ''error''),
                                  (''message'', PyStr ''Invalid client type'')])))"
| "handler_step s (Prod_lock req) =
     (if lock s then None
      else Some (s\<lparr>lock := True\<rparr>, Prod_check (dict_get req ''item'' PyNone)))"
| "handler_step s (Prod_check item) =
     (if Queue_full (server_buffer s) then
        Some (s, Prod_unlock [(''status'', PyStr ''error''),
                              (''message'', PyStr ''Buffer is full. Try again later.'')])
      else Some (s, Prod_put item))"
| "handler_step s (Prod_put item) =
     (case Queue_put (server_buffer s) item of
        None \<Rightarrow> None
      | Some q \<Rightarrow> Some (s\<lparr>server_buffer := q\<rparr>, Prod_reply item))"
| "handler_step s (Prod_reply item) =
     Some (s, Prod_unlock
       [(''status'', PyStr ''success''),
        (''message'',
           PyStr (''Item '' @ [CHR 0x22] @ py_str item @ [CHR 0x22] @ '' added to buffer'')),
        (''buffer_size'', PyInt (qsize (server_buffer s)))])"
| "handler_step s (Prod_unlock r) = Some (s\<lparr>lock := False\<rparr>, Closed (Some r))"
| "handler_step s (Cons_lock req) =
     (if lock s then None else Some (s\<lparr>lock := True\<rparr>, Cons_check))"
| "handler_step s Cons_check =
     (if Queue_empty (server_buffer s) then
        Some (s, Cons_unlock [(''status'', PyStr ''error''),
                              (''message'', PyStr ''Buffer is empty. No items to consume.'')])
      else Some (s, Cons_get))"
| "handler_step s Cons_get =
     (case Queue_get (server_buffer s) of
        None \<Rightarrow> None
      | Some (item, q) \<Rightarrow> Some (s\<lparr>server_buffer := q\<rparr>, Cons_reply item))"
| "handler_step s (Cons_reply item) =
     Some (s, Cons_unlock
       [(''status'', PyStr ''success''),
        (''item'', item),
        (''message'',
           PyStr (''Item '' @ [CHR 0x22] @ py_str item @ [CHR 0x22] @ '' consumed'')),
        (''buffer_size'', PyInt (qsize (server_buffer s)))])"
| "handler_step s (Cons_unlock r) = Some (s\<lparr>lock := False\<rparr>, Closed (Some r))"
| "handler_step s (Closed r) = None"

text \<open>One handler run alone until the connection is closed, for at most \<open>fuel\<close> steps.\<close>

fun run_handler :: "nat \<Rightarrow> SharedBufferServer \<Rightarrow> hpc \<Rightarrow> (SharedBufferServer \<times> hpc) option" where
  "run_handler fuel s (Closed r) = Some (s, Closed r)"
| "run_handler 0 s h = None"
| "run_handler (Suc fuel) s h =
     (case handler_step s h of
        None \<Rightarrow> None
      | Some (s', h') \<Rightarrow> run_handler fuel s' h')"

text \<open>
  A configuration is the server, the connections not yet accepted, and the handlers. The
  accept loop takes the next connection and starts its handler; any handler may take
  its next step. \<open>serving C ds\<close> holds of the configurations that a server built with
  \<open>buffer_size = C\<close> reaches on the connections \<open>ds\<close>.
\<close>

inductive srv_step ::
  "SharedBufferServer \<times> received list \<times> hpc list \<Rightarrow>
   SharedBufferServer \<times> received list \<times> hpc list \<Rightarrow> bool" where
  accept: "srv_step (s, d # pending, hs) (s, pending, hs @ [Recv d])"
| handle: "i < length hs \<Longrightarrow> handler_step s (hs ! i) = Some (s', h) \<Longrightarrow>
     srv_step (s, pending, hs) (s', pending, hs[i := h])"

definition serving ::
  "int \<Rightarrow> received list \<Rightarrow> SharedBufferServer \<times> received list \<times> hpc list \<Rightarrow> bool" where
  "serving C ds cfg \<longleftrightarrow> srv_step\<^sup>*\<^sup>* (SharedBufferServer_init C, ds, []) cfg"

text \<open>A schedule of the server: accept the next connection, or let handler \<open>i\<close> move.\<close>

datatype move = Accept | Handle nat

fun srv_move ::
  "SharedBufferServer \<times> received list \<times> hpc list \<Rightarrow> move \<Rightarrow>
   (SharedBufferServer \<times> received list \<times> hpc list) option" where
  "srv_move (s, [], hs) Accept = None"
| "srv_move (s, d # pending, hs) Accept = Some (s, pending, hs @ [Recv d])"
| "srv_move (s, pending, hs) (Handle i) =
     (if i < length hs then
        (case handler_step s (hs ! i) of
           None \<Rightarrow> None
         | Some (s', h) \<Rightarrow> Some (s', pending, hs[i := h]))
      else None)"

fun srv_schedule ::
  "SharedBufferServer \<times> received list \<times> hpc list \<Rightarrow> move list \<Rightarrow>
   (SharedBufferServer \<times> received list \<times> hpc list) option" where
  "srv_schedule cfg [] = Some cfg"
| "srv_schedule cfg (m # ms) =
     (case srv_move cfg m of None \<Rightarrow> None | Some cfg' \<Rightarrow> srv_schedule cfg' ms)"

text \<open>
  Bookkeeping for the invariants: a connection that brings a producer request, a response
  with status \<open>success\<close>, a finished handler (that has sent a \<open>success\<close> response), a
  handler inside a \<open>with self.lock\<close> block, a handler past its \<open>put\<close>, and the places a
  handler of an accepted producer request can be at.
\<close>

fun produce_request :: "received \<Rightarrow> bool" where
  "produce_request (Request req) \<longleftrightarrow> dict_get req ''type'' PyNone = PyStr ''producer''"
| "produce_request d \<longleftrightarrow> False"

definition accepted :: "response \<Rightarrow> bool" where
  "accepted r \<longleftrightarrow> map_of r ''status'' = Some (PyStr ''success'')"

fun closed :: "hpc \<Rightarrow> bool" where
  "closed (Closed r) = True"
| "closed h = False"

fun closed_ok :: "hpc \<Rightarrow> bool" where
  "closed_ok (Closed (Some r)) = accepted r"
| "closed_ok h = False"

fun in_with_block :: "hpc \<Rightarrow> int" where
  "in_with_block (Recv d) = 0"
| "in_with_block (Prod_lock req) = 0"
| "in_with_block (Cons_lock req) = 0"
| "in_with_block (Closed r) = 0"
| "in_with_block h = 1"

fun enqueued :: "hpc \<Rightarrow> int" where
  "enqueued (Prod_reply item) = 1"
| "enqueued (Prod_unlock r) = 1"
| "enqueued (Closed r) = 1"
| "enqueued h = 0"

fun prod_ok :: "hpc \<Rightarrow> bool" where
  "prod_ok (Recv d) = produce_request d"
| "prod_ok (Prod_lock req) = True"
| "prod_ok (Prod_check item) = True"
| "prod_ok (Prod_put item) = True"
| "prod_ok (Prod_reply item) = True"
| "prod_ok (Prod_unlock r) = accepted r"
| "prod_ok (Closed (Some r)) = accepted r"
| "prod_ok h = False"

text \<open>
  What holds in every configuration of a server with \<open>buffer_size = C\<close> that serves \<open>n\<close>
  connections, all of them producer requests, when \<open>n\<close> is at most \<open>C\<close>: the queue holds the
  items of the handlers past their \<open>put\<close>, and the lock is held exactly when one handler
  is inside its \<open>with\<close> block.
\<close>

definition prod_inv ::
  "int \<Rightarrow> nat \<Rightarrow> SharedBufferServer \<times> received list \<times> hpc list \<Rightarrow> bool" where
  "prod_inv C n cfg \<longleftrightarrow>
     (case cfg of (s, pending, hs) \<Rightarrow>
        list_all produce_request pending \<and> list_all prod_ok hs \<and>
        length pending + length hs = n \<and>
        maxsize (server_buffer s) = C \<and>
        qsize (server_buffer s) = sum_list (map enqueued hs) \<and>
        (if lock s then 1 else 0) = sum_list (map in_with_block hs))"

section \<open>The remote clients\<close>

text \<open>
  \<open>Producer.produce\<close> and \<open>Consumer.consume\<close> open a connection, send one request, read
  one reply and close. The network and the peer are a parameter: an exchange takes the
  state of the world and the request and gives the reply, or \<open>None\<close> when the attempt
  raised (connection refused, reset, a reply that is not JSON), and the world after it.
  Every exception is caught by the method and reported as failure; so is a reply that
  lacks the key it reads.
\<close>

type_synonym 'w transport = "'w \<Rightarrow> request \<Rightarrow> response option \<times> 'w"

definition Producer_produce :: "'w transport \<Rightarrow> pyval \<Rightarrow> 'w \<Rightarrow> pyval \<Rightarrow> bool \<times> 'w" where
  "Producer_produce net producer_id w item =
     (let req = [''type'' \<mapsto> PyStr ''producer'', ''id'' \<mapsto> producer_id, ''item'' \<mapsto> item];
          (reply, w') = net w req
      in case reply of
           None \<Rightarrow> (False, w')
         | Some response_data \<Rightarrow>
             (case map_of response_data ''status'' of
                None \<Rightarrow> (False, w')
              | Some st \<Rightarrow> if st = PyStr ''success'' then (True, w') else (False, w')))"

text \<open>\<open>consume\<close> returns the item of a successful reply, which may itself be \<open>None\<close>.\<close>

definition Consumer_consume :: "'w transport \<Rightarrow> pyval \<Rightarrow> 'w \<Rightarrow> pyval \<times> 'w" where
  "Consumer_consume net consumer_id w =
     (let req = [''type'' \<mapsto> PyStr ''consumer'', ''id'' \<mapsto> consumer_id];
          (reply, w') = net w req
      in case reply of
           None \<Rightarrow> (PyNone, w')
         | Some response_data \<Rightarrow>
             (case map_of response_data ''status'' of
                None \<Rightarrow> (PyNone, w')
              | Some st \<Rightarrow>
                  if st = PyStr ''success'' then
                    (case map_of response_data ''item'' of
                       None \<Rightarrow> (PyNone, w')
                     | Some item \<Rightarrow> (item, w'))
                  else (PyNone, w')))"

text \<open>
  The inner \<open>while not success and retries < max_retries\<close> loop of
  \<open>Producer.continuous_production\<close>. The sleeps and prints are left out. \<open>log\<close> records the
  calls of \<open>self.produce\<close>: each call appends its item.
\<close>

function produce_retries ::
  "'w transport \<Rightarrow> pyval \<Rightarrow> int \<Rightarrow> pyval \<Rightarrow> bool \<Rightarrow> int \<Rightarrow> 'w \<Rightarrow> pyval list
   \<Rightarrow> bool \<times> int \<times> 'w \<times> pyval list" where
  "produce_retries net pid max_retries item success retries w log =
     (if \<not> success \<and> retries < max_retries then
        (case Producer_produce net pid w item of
           (success', w') \<Rightarrow>
             produce_retries net pid max_retries item success'
               (if \<not> success' then retries + 1 else retries) w' (log @ [item]))
      else (success, retries, w, log))"
  by pat_completeness auto
termination
  by (relation "measure (\<lambda>(net, pid, max_retries, item, success, retries, w, log).
        if success then 0 else 1 + nat (max_retries - retries))") auto

declare produce_retries.simps [simp del]

text \<open>The \<open>for item in items\<close> loop: each item starts with \<open>retries = 0\<close>, \<open>success = False\<close>.\<close>

fun production_loop ::
  "'w transport \<Rightarrow> pyval \<Rightarrow> int \<Rightarrow> pyval list \<Rightarrow> 'w \<Rightarrow> pyval list \<Rightarrow> 'w \<times> pyval list" where
  "production_loop net pid max_retries [] w log = (w, log)"
| "production_loop net pid max_retries (item # rest) w log =
     (case produce_retries net pid max_retries item False 0 w log of
        (success, retries, w', log') \<Rightarrow> production_loop net pid max_retries rest w' log')"

text \<open>
  \<open>Producer.continuous_production(items, interval, max_retries)\<close>; without \<open>items\<close> it
  produces \<open>Item-1\<close> to \<open>Item-100\<close>. The result is the world after the run and the log of
  the \<open>produce\<close> calls made.
\<close>

definition Producer_continuous_production ::
  "'w transport \<Rightarrow> pyval \<Rightarrow> pyval list option \<Rightarrow> int \<Rightarrow> 'w \<Rightarrow> 'w \<times> pyval list" where
  "Producer_continuous_production net pid items_arg max_retries w =
     production_loop net pid max_retries
       (case items_arg of
          None \<Rightarrow> map (\<lambda>i. PyStr (''Item-'' @ py_str (PyInt (int i)))) [1..<101]
        | Some xs \<Rightarrow> xs) w []"

text \<open>
  The inner \<open>while item is None and retries < max_retries\<close> loop of
  \<open>Consumer.continuous_consumption\<close>. The first component of the result tells whether the
  \<open>return\<close> of the exhausted branch was taken; \<open>attempts\<close> counts the calls of
  \<open>self.consume\<close>.
\<close>

function consume_retries ::
  "'w transport \<Rightarrow> pyval \<Rightarrow> int \<Rightarrow> pyval \<Rightarrow> int \<Rightarrow> 'w \<Rightarrow> nat \<Rightarrow> bool \<times> pyval \<times> 'w \<times> nat" where
  "consume_retries net cid max_retries item retries w attempts =
     (if item = PyNone \<and> retries < max_retries then
        (case Consumer_consume net cid w of
           (item', w') \<Rightarrow>
             if item' = PyNone then
               (if retries + 1 < max_retries then
                  consume_retries net cid max_retries item' (retries + 1) w' (attempts + 1)
                else (True, item', w', attempts + 1))
             else consume_retries net cid max_retries item' retries w' (attempts + 1))
      else (False, item, w, attempts))"
  by pat_completeness auto
termination
  by (relation "measure (\<lambda>(net, cid, max_retries, item, retries, w, attempts).
        if item \<noteq> PyNone then 0 else 1 + nat (max_retries - retries))") auto

declare consume_retries.simps [simp del]

text \<open>
  The outer \<open>while items_consumed < max_items\<close> loop. Nothing in the source bounds the
  number of its rounds, so the loop is a partial function: the value \<open>None\<close> is a run
  that never leaves the loop. A run that ends gives the number of items consumed, the
  world after it and the number of \<open>consume\<close> calls made.
\<close>

partial_function (option) consumption_loop ::
  "'w transport \<Rightarrow> pyval \<Rightarrow> int \<Rightarrow> int \<Rightarrow> int \<Rightarrow> 'w \<Rightarrow> nat \<Rightarrow> (int \<times> 'w \<times> nat) option" where
  "consumption_loop net cid max_items max_retries items_consumed w attempts =
     (if items_consumed < max_items then
        (case consume_retries net cid max_retries PyNone 0 w attempts of
           (returned, item, w', attempts') \<Rightarrow>
             if returned then Some (items_consumed, w', attempts')
             else if item \<noteq> PyNone then
               consumption_loop net cid max_items max_retries (items_consumed + 1) w' attempts'
             else consumption_loop net cid max_items max_retries items_consumed w' attempts')
      else Some (items_consumed, w, attempts))"

declare consumption_loop.simps [code]

definition Consumer_continuous_consumption ::
  "'w transport \<Rightarrow> pyval \<Rightarrow> int \<Rightarrow> int \<Rightarrow> 'w \<Rightarrow> (int \<times> 'w \<times> nat) option" where
  "Consumer_continuous_consumption net cid max_items max_retries w =
     consumption_loop net cid max_items max_retries 0 w 0"

text \<open>
  The exchange with a \<open>SharedBufferServer\<close> that serves this client alone: the world is
  the server, the reply is what \<open>handle_client\<close> sends. A handler that never answers is
  read as a failed exchange.
\<close>

definition server_transport :: "SharedBufferServer transport" where
  "server_transport s req =
     (case handle_client s (Request req) of
        None \<Rightarrow> (None, s)
      | Some (s', reply) \<Rightarrow> (reply, s'))"

section \<open>Invariants between calls\<close>

text \<open>
  What holds between calls when the calls are made one after the other on a buffer built
  by \<open>SharedBuffer(C)\<close>: \<open>mutex\<close> and \<open>_lock\<close> are free, the permits of \<open>empty\<close> and \<open>full\<close> add
  up to \<open>C\<close>, \<open>full\<close> counts the queued items, and the two counters differ by the queue's
  length.
\<close>

definition local_inv :: "int \<Rightarrow> SharedBuffer \<Rightarrow> bool" where
  "local_inv C b \<longleftrightarrow>
     maxsize (buffer b) = C \<and> mutex b = 1 \<and> \<not> lock_held b \<and>
     int (empty_sem b) + int (full_sem b) = C \<and>
     full_sem b = length (items (buffer b)) \<and>
     produced_count b - consumed_count b = int (length (items (buffer b))) \<and>
     0 \<le> consumed_count b"

text \<open>
  What holds between requests on a server built with \<open>buffer_size = C\<close>, for \<open>C\<close> at least
  one: the lock is free and the queue holds at most \<open>C\<close> items.
\<close>

definition srv_inv :: "int \<Rightarrow> SharedBufferServer \<Rightarrow> bool" where
  "srv_inv C s \<longleftrightarrow>
     maxsize (server_buffer s) = C \<and> \<not> lock s \<and> qsize (server_buffer s) \<le> C"

section \<open>Properties of single calls on the local engine\<close>

lemmas local_defs = SharedBuffer_insert_def SharedBuffer_remove_def sem_acquire_def
  sem_release_def Queue_put_def Queue_get_def Queue_full_def Queue_empty_def qsize_def Let_def

lemma insert_timeout:
  "empty_sem b = 0 \<or> mutex b = 0 \<Longrightarrow> SharedBuffer_insert b item = Some (b, False)"
  by (auto simp: local_defs)

lemma remove_timeout:
  "full_sem b = 0 \<or> mutex b = 0 \<Longrightarrow> SharedBuffer_remove b = Some (b, None)"
  by (auto simp: local_defs)

lemma insert_False:
  "SharedBuffer_insert b item = Some (b', False) \<Longrightarrow>
   (empty_sem b = 0 \<or> mutex b = 0) \<and> b' = b"
  by (auto simp: local_defs split: if_splits option.splits)

lemma remove_None:
  "SharedBuffer_remove b = Some (b', None) \<Longrightarrow> (full_sem b = 0 \<or> mutex b = 0) \<and> b' = b"
  by (auto simp: local_defs split: if_splits option.splits prod.splits list.splits)

lemma remove_oldest:
  "SharedBuffer_remove b = Some (b', Some x) \<Longrightarrow> items (buffer b) = x # items (buffer b')"
  by (auto simp: local_defs split: if_splits option.splits prod.splits list.splits)

lemma insert_True:
  "SharedBuffer_insert b item = Some (b', True) \<Longrightarrow>
   items (buffer b') = items (buffer b) @ [item]"
  by (auto simp: local_defs split: if_splits option.splits prod.splits list.splits)

text \<open>
  C2 (timeout atomicity). \<open>insert\<close> times out at the empty-slot gate when \<open>empty\<close> has no
  permit, and at the mutex gate when it got a permit but \<open>mutex\<close> has none; in both cases
  it returns \<open>False\<close> and the buffer object is exactly as before the call: same queue,
  same counters, and \<open>empty\<close> back at its value, the permit taken at the first gate having
  been released. \<open>remove\<close> does the same with the \<open>full\<close> gate and returns \<open>None\<close>. A call
  that returns the failure value has changed nothing, and it failed at one of the gates.
\<close>

theorem timeout_atomicity:
  "(empty_sem b = 0 \<or> mutex b = 0 \<longrightarrow> SharedBuffer_insert b item = Some (b, False)) \<and>
   (full_sem b = 0 \<or> mutex b = 0 \<longrightarrow> SharedBuffer_remove b = Some (b, None)) \<and>
   (SharedBuffer_insert b item = Some (b', False) \<longrightarrow>
      b' = b \<and> (empty_sem b = 0 \<or> mutex b = 0)) \<and>
   (SharedBuffer_remove b = Some (b'', None) \<longrightarrow>
      b'' = b \<and> (full_sem b = 0 \<or> mutex b = 0))"
  using insert_timeout[of b item] remove_timeout[of b] insert_False[of b item b']
    remove_None[of b b'']
  by auto

theorem timeout_atomicity_witness:
  "SharedBuffer_insert
     \<lparr> buffer = \<lparr> maxsize = 1, items = [7] \<rparr>, mutex = 1, empty_sem = 0, full_sem = 1,
       produced_count = 1, consumed_count = 0, lock_held = False \<rparr> 8 =
   Some (\<lparr> buffer = \<lparr> maxsize = 1, items = [7] \<rparr>, mutex = 1, empty_sem = 0, full_sem = 1,
            produced_count = 1, consumed_count = 0, lock_held = False \<rparr>, False) \<and>
   SharedBuffer_insert
     \<lparr> buffer = \<lparr> maxsize = 2, items = [7] \<rparr>, mutex = 0, empty_sem = 1, full_sem = 1,
       produced_count = 1, consumed_count = 0, lock_held = False \<rparr> 8 =
   Some (\<lparr> buffer = \<lparr> maxsize = 2, items = [7] \<rparr>, mutex = 0, empty_sem = 1, full_sem = 1,
            produced_count = 1, consumed_count = 0, lock_held = False \<rparr>, False) \<and>
   SharedBuffer_remove
     \<lparr> buffer = \<lparr> maxsize = 1, items = [] \<rparr>, mutex = 1, empty_sem = 1, full_sem = 0,
       produced_count = 0, consumed_count = 0, lock_held = False \<rparr> =
   Some (\<lparr> buffer = \<lparr> maxsize = 1, items = [] \<rparr>, mutex = 1, empty_sem = 1, full_sem = 0,
            produced_count = 0, consumed_count = 0, lock_held = False \<rparr>, None) \<and>
   SharedBuffer_remove
     \<lparr> buffer = \<lparr> maxsize = 2, items = [7] \<rparr>, mutex = 0, empty_sem = 1, full_sem = 1,
       produced_count = 1, consumed_count = 0, lock_held = False \<rparr> =
   Some (\<lparr> buffer = \<lparr> maxsize = 2, items = [7] \<rparr>, mutex = 0, empty_sem = 1, full_sem = 1,
            produced_count = 1, consumed_count = 0, lock_held = False \<rparr>, None)"
  using
    timeout_atomicity[of
      "\<lparr> buffer = \<lparr> maxsize = 1, items = [7] \<rparr>, mutex = 1, empty_sem = 0, full_sem = 1,
         produced_count = 1, consumed_count = 0, lock_held = False \<rparr>" 8]
    timeout_atomicity[of
      "\<lparr> buffer = \<lparr> maxsize = 2, items = [7] \<rparr>, mutex = 0, empty_sem = 1, full_sem = 1,
         produced_count = 1, consumed_count = 0, lock_held = False \<rparr>" 8]
    timeout_atomicity[of
      "\<lparr> buffer = \<lparr> maxsize = 1, items = [] \<rparr>, mutex = 1, empty_sem = 1, full_sem = 0,
         produced_count = 0, consumed_count = 0, lock_held = False \<rparr>" 8]
  by simp

section \<open>Sequences of calls on the local engine\<close>

lemma init_inv: "SharedBuffer_init C = Inr b \<Longrightarrow> local_inv C b"
  by (auto simp: SharedBuffer_init_def local_inv_def Queue_init_def split: if_splits)

lemma insert_inv:
  "local_inv C b \<Longrightarrow> \<exists>b' r. SharedBuffer_insert b item = Some (b', r) \<and> local_inv C b'"
  by (auto simp: local_defs local_inv_def)

lemma remove_inv:
  "local_inv C b \<Longrightarrow> \<exists>b' r. SharedBuffer_remove b = Some (b', r) \<and> local_inv C b'"
  by (auto simp: local_defs local_inv_def split: list.splits)

lemma run_calls_inv:
  "local_inv C b \<Longrightarrow> \<exists>b' rs. run_calls b cs = Some (b', rs) \<and> local_inv C b'"
proof (induction cs arbitrary: b)
  case Nil
  then show ?case by simp
next
  case (Cons c cs)
  show ?case
  proof (cases c)
    case (Insert item)
    from insert_inv[OF Cons.prems, of item] obtain b1 r
      where s: "SharedBuffer_insert b item = Some (b1, r)" and i: "local_inv C b1"
      by blast
    from Cons.IH[OF i] obtain b2 rs
      where "run_calls b1 cs = Some (b2, rs)" "local_inv C b2"
      by blast
    with s Insert show ?thesis by simp
  next
    case Remove
    from remove_inv[OF Cons.prems] obtain b1 r
      where s: "SharedBuffer_remove b = Some (b1, r)" and i: "local_inv C b1"
      by blast
    from Cons.IH[OF i] obtain b2 rs
      where "run_calls b1 cs = Some (b2, rs)" "local_inv C b2"
      by blast
    with s Remove show ?thesis by simp
  qed
qed

lemma insert_fresh:
  "local_inv C b \<Longrightarrow> int (length (items (buffer b))) < C \<Longrightarrow>
   \<exists>b'. SharedBuffer_insert b item = Some (b', True) \<and> local_inv C b' \<and>
        items (buffer b') = items (buffer b) @ [item]"
  by (auto simp: local_defs local_inv_def)

lemma remove_head:
  "local_inv C b \<Longrightarrow> items (buffer b) = x # xs \<Longrightarrow>
   \<exists>b'. SharedBuffer_remove b = Some (b', Some x) \<and> local_inv C b' \<and> items (buffer b') = xs"
  by (auto simp: local_defs local_inv_def)

lemma run_calls_fifo3:
  assumes "3 \<le> C" and "SharedBuffer_init C = Inr b0"
  shows "\<exists>b'. run_calls b0 [Insert 1, Insert 2, Insert 3, Remove, Remove, Remove] =
     Some (b', [Inserted True, Inserted True, Inserted True,
                Removed (Some 1), Removed (Some 2), Removed (Some 3)])"
proof -
  have i0: "local_inv C b0" and e0: "items (buffer b0) = []"
    using assms(2) init_inv[of C b0]
    by (auto simp: SharedBuffer_init_def Queue_init_def split: if_splits)
  from insert_fresh[OF i0, of 1] e0 assms(1) obtain b1
    where s1: "SharedBuffer_insert b0 1 = Some (b1, True)" and i1: "local_inv C b1"
      and e1: "items (buffer b1) = [1]"
    by auto
  from insert_fresh[OF i1, of 2] e1 assms(1) obtain b2
    where s2: "SharedBuffer_insert b1 2 = Some (b2, True)" and i2: "local_inv C b2"
      and e2: "items (buffer b2) = [1, 2]"
    by auto
  from insert_fresh[OF i2, of 3] e2 assms(1) obtain b3
    where s3: "SharedBuffer_insert b2 3 = Some (b3, True)" and i3: "local_inv C b3"
      and e3: "items (buffer b3) = [1, 2, 3]"
    by auto
  from remove_head[OF i3 e3] obtain b4
    where s4: "SharedBuffer_remove b3 = Some (b4, Some 1)" and i4: "local_inv C b4"
      and e4: "items (buffer b4) = [2, 3]"
    by auto
  from remove_head[OF i4 e4] obtain b5
    where s5: "SharedBuffer_remove b4 = Some (b5, Some 2)" and i5: "local_inv C b5"
      and e5: "items (buffer b5) = [3]"
    by auto
  from remove_head[OF i5 e5] obtain b6
    where s6: "SharedBuffer_remove b5 = Some (b6, Some 3)"
    by auto
  show ?thesis
    by (simp add: s1 s2 s3 s4 s5 s6)
qed

text \<open>
  C4 (FIFO order). A successful \<open>remove\<close> returns the item at the front of the queue and
  leaves the rest; a successful \<open>insert\<close> puts its item at the back, so the front is the
  oldest item still in the buffer. On a buffer built with room for three items, the calls
  \<open>insert(1)\<close>, \<open>insert(2)\<close>, \<open>insert(3)\<close> and three \<open>remove()\<close> all succeed and the removals
  give 1, 2, 3 in that order.
\<close>

theorem fifo_order:
  "(SharedBuffer_remove b = Some (b', Some x) \<longrightarrow> items (buffer b) = x # items (buffer b')) \<and>
   (SharedBuffer_insert b item = Some (b'', True) \<longrightarrow>
      items (buffer b'') = items (buffer b) @ [item]) \<and>
   (3 \<le> C \<and> SharedBuffer_init C = Inr b0 \<longrightarrow>
      (\<exists>b3. run_calls b0 [Insert 1, Insert 2, Insert 3, Remove, Remove, Remove] =
         Some (b3, [Inserted True, Inserted True, Inserted True,
                    Removed (Some 1), Removed (Some 2), Removed (Some 3)])))"
  using remove_oldest[of b b' x] insert_True[of b item b''] run_calls_fifo3[of C b0]
  by blast

theorem fifo_order_witness:
  "SharedBuffer_remove
     \<lparr> buffer = \<lparr> maxsize = 3, items = [4, 5] \<rparr>, mutex = 1, empty_sem = 1, full_sem = 2,
       produced_count = 2, consumed_count = 0, lock_held = False \<rparr> =
   Some (\<lparr> buffer = \<lparr> maxsize = 3, items = [5] \<rparr>, mutex = 1, empty_sem = 2, full_sem = 1,
            produced_count = 2, consumed_count = 1, lock_held = False \<rparr>, Some 4) \<and>
   SharedBuffer_insert
     \<lparr> buffer = \<lparr> maxsize = 3, items = [4, 5] \<rparr>, mutex = 1, empty_sem = 1, full_sem = 2,
       produced_count = 2, consumed_count = 0, lock_held = False \<rparr> 6 =
   Some (\<lparr> buffer = \<lparr> maxsize = 3, items = [4, 5, 6] \<rparr>, mutex = 1, empty_sem = 0,
            full_sem = 3, produced_count = 3, consumed_count = 0, lock_held = False \<rparr>, True) \<and>
   (3::int) \<le> 3 \<and>
   SharedBuffer_init 3 =
     Inr \<lparr> buffer = \<lparr> maxsize = 3, items = [] \<rparr>, mutex = 1, empty_sem = 3, full_sem = 0,
           produced_count = 0, consumed_count = 0, lock_held = False \<rparr> \<and>
   (\<exists>b3. run_calls
      \<lparr> buffer = \<lparr> maxsize = 3, items = [] \<rparr>, mutex = 1, empty_sem = 3, full_sem = 0,
        produced_count = 0, consumed_count = 0, lock_held = False \<rparr>
      [Insert 1, Insert 2, Insert 3, Remove, Remove, Remove] =
      Some (b3, [Inserted True, Inserted True, Inserted True,
                 Removed (Some 1), Removed (Some 2), Removed (Some 3)]))"
proof -
  have r: "SharedBuffer_remove
     \<lparr> buffer = \<lparr> maxsize = 3, items = [4, 5] \<rparr>, mutex = 1, empty_sem = 1, full_sem = 2,
       produced_count = 2, consumed_count = 0, lock_held = False \<rparr> =
   Some (\<lparr> buffer = \<lparr> maxsize = 3, items = [5] \<rparr>, mutex = 1, empty_sem = 2, full_sem = 1,
            produced_count = 2, consumed_count = 1, lock_held = False \<rparr>, Some 4)"
    by (simp add: local_defs)
  have i: "SharedBuffer_insert
     \<lparr> buffer = \<lparr> maxsize = 3, items = [4, 5] \<rparr>, mutex = 1, empty_sem = 1, full_sem = 2,
       produced_count = 2, consumed_count = 0, lock_held = False \<rparr> 6 =
   Some (\<lparr> buffer = \<lparr> maxsize = 3, items = [4, 5, 6] \<rparr>, mutex = 1, empty_sem = 0,
            full_sem = 3, produced_count = 3, consumed_count = 0, lock_held = False \<rparr>, True)"
    by (simp add: local_defs)
  have c: "SharedBuffer_init 3 =
     Inr \<lparr> buffer = \<lparr> maxsize = 3, items = [] \<rparr>, mutex = 1, empty_sem = 3, full_sem = 0,
           produced_count = 0, consumed_count = 0, lock_held = False \<rparr>"
    by (simp add: SharedBuffer_init_def Queue_init_def)
  show ?thesis
    using r i c
      fifo_order[of
        "\<lparr> buffer = \<lparr> maxsize = 3, items = [4, 5] \<rparr>, mutex = 1, empty_sem = 1, full_sem = 2,
           produced_count = 2, consumed_count = 0, lock_held = False \<rparr>"
        "\<lparr> buffer = \<lparr> maxsize = 3, items = [5] \<rparr>, mutex = 1, empty_sem = 2, full_sem = 1,
            produced_count = 2, consumed_count = 1, lock_held = False \<rparr>" 4 6
        "\<lparr> buffer = \<lparr> maxsize = 3, items = [4, 5, 6] \<rparr>, mutex = 1, empty_sem = 0,
            full_sem = 3, produced_count = 3, consumed_count = 0, lock_held = False \<rparr>" 3
        "\<lparr> buffer = \<lparr> maxsize = 3, items = [] \<rparr>, mutex = 1, empty_sem = 3, full_sem = 0,
           produced_count = 0, consumed_count = 0, lock_held = False \<rparr>"]
    by simp
qed

text \<open>
  C9 (counter-size coherence). After any sequence of calls made one after the other on a
  buffer built by \<open>SharedBuffer(C)\<close>, every call has returned, \<open>produced_count\<close> minus
  \<open>consumed_count\<close> is the size of the buffer and \<open>consumed_count\<close> is at most
  \<open>produced_count\<close>. A call that returns the failure value, from any state of the buffer,
  leaves both counters as they were.
\<close>

theorem counter_size_coherence:
  "(SharedBuffer_init C = Inr b0 \<longrightarrow>
      (\<exists>b rs. run_calls b0 cs = Some (b, rs) \<and>
         produced_count b - consumed_count b = get_size b \<and>
         consumed_count b \<le> produced_count b)) \<and>
   (SharedBuffer_insert s item = Some (s', False) \<longrightarrow>
      produced_count s' = produced_count s \<and> consumed_count s' = consumed_count s) \<and>
   (SharedBuffer_remove s = Some (s'', None) \<longrightarrow>
      produced_count s'' = produced_count s \<and> consumed_count s'' = consumed_count s)"
proof (intro conjI impI)
  assume "SharedBuffer_init C = Inr b0"
  then have "local_inv C b0" by (rule init_inv)
  from run_calls_inv[OF this, of cs] obtain b rs
    where r: "run_calls b0 cs = Some (b, rs)" and i: "local_inv C b"
    by blast
  from i have "produced_count b - consumed_count b = get_size b"
    and "consumed_count b \<le> produced_count b"
    by (auto simp: local_inv_def get_size_def qsize_def)
  with r show "\<exists>b rs. run_calls b0 cs = Some (b, rs) \<and>
         produced_count b - consumed_count b = get_size b \<and>
         consumed_count b \<le> produced_count b"
    by blast
next
  assume "SharedBuffer_insert s item = Some (s', False)"
  then have "s' = s" using insert_False by blast
  then show "produced_count s' = produced_count s" and "consumed_count s' = consumed_count s"
    by simp_all
next
  assume "SharedBuffer_remove s = Some (s'', None)"
  then have "s'' = s" using remove_None by blast
  then show "produced_count s'' = produced_count s" and "consumed_count s'' = consumed_count s"
    by simp_all
qed

theorem counter_size_coherence_witness:
  "SharedBuffer_init 2 =
     Inr \<lparr> buffer = \<lparr> maxsize = 2, items = [] \<rparr>, mutex = 1, empty_sem = 2, full_sem = 0,
           produced_count = 0, consumed_count = 0, lock_held = False \<rparr> \<and>
   (\<exists>b rs. run_calls
       \<lparr> buffer = \<lparr> maxsize = 2, items = [] \<rparr>, mutex = 1, empty_sem = 2, full_sem = 0,
         produced_count = 0, consumed_count = 0, lock_held = False \<rparr>
       [Insert 1, Insert 2, Insert 3, Remove] = Some (b, rs) \<and>
      produced_count b - consumed_count b = get_size b \<and>
      consumed_count b \<le> produced_count b) \<and>
   SharedBuffer_insert
     \<lparr> buffer = \<lparr> maxsize = 1, items = [7] \<rparr>, mutex = 1, empty_sem = 0, full_sem = 1,
       produced_count = 1, consumed_count = 0, lock_held = False \<rparr> 8 =
   Some (\<lparr> buffer = \<lparr> maxsize = 1, items = [7] \<rparr>, mutex = 1, empty_sem = 0, full_sem = 1,
            produced_count = 1, consumed_count = 0, lock_held = False \<rparr>, False) \<and>
   SharedBuffer_remove
     \<lparr> buffer = \<lparr> maxsize = 1, items = [] \<rparr>, mutex = 1, empty_sem = 1, full_sem = 0,
       produced_count = 0, consumed_count = 0, lock_held = False \<rparr> =
   Some (\<lparr> buffer = \<lparr> maxsize = 1, items = [] \<rparr>, mutex = 1, empty_sem = 1, full_sem = 0,
            produced_count = 0, consumed_count = 0, lock_held = False \<rparr>, None)"
proof -
  have c: "SharedBuffer_init 2 =
     Inr \<lparr> buffer = \<lparr> maxsize = 2, items = [] \<rparr>, mutex = 1, empty_sem = 2, full_sem = 0,
           produced_count = 0, consumed_count = 0, lock_held = False \<rparr>"
    by (simp add: SharedBuffer_init_def Queue_init_def)
  have i: "SharedBuffer_insert
     \<lparr> buffer = \<lparr> maxsize = 1, items = [7] \<rparr>, mutex = 1, empty_sem = 0, full_sem = 1,
       produced_count = 1, consumed_count = 0, lock_held = False \<rparr> 8 =
   Some (\<lparr> buffer = \<lparr> maxsize = 1, items = [7] \<rparr>, mutex = 1, empty_sem = 0, full_sem = 1,
            produced_count = 1, consumed_count = 0, lock_held = False \<rparr>, False)"
    by (simp add: local_defs)
  have r: "SharedBuffer_remove
     \<lparr> buffer = \<lparr> maxsize = 1, items = [] \<rparr>, mutex = 1, empty_sem = 1, full_sem = 0,
       produced_count = 0, consumed_count = 0, lock_held = False \<rparr> =
   Some (\<lparr> buffer = \<lparr> maxsize = 1, items = [] \<rparr>, mutex = 1, empty_sem = 1, full_sem = 0,
            produced_count = 0, consumed_count = 0, lock_held = False \<rparr>, None)"
    by (simp add: local_defs)
  show ?thesis
    using c i r
      counter_size_coherence[of 2
        "\<lparr> buffer = \<lparr> maxsize = 2, items = [] \<rparr>, mutex = 1, empty_sem = 2, full_sem = 0,
           produced_count = 0, consumed_count = 0, lock_held = False \<rparr>"
        "[Insert 1, Insert 2, Insert 3, Remove]"]
    by simp
qed

section \<open>Threads interleaved on the local engine\<close>

text \<open>
  A call run alone is the thread's steps taken without interruption: \<open>SharedBuffer_insert\<close>
  and \<open>SharedBuffer_remove\<close> give what six steps of the thread give.
\<close>

lemma insert_is_run_thread:
  "run_thread 6 b (Ins_empty item) =
     map_option (\<lambda>(b', r). (b', Idle (Some (Inserted r)))) (SharedBuffer_insert b item)"
  by (simp add: numeral_eq_Suc SharedBuffer_insert_def Let_def split: option.splits)

lemma remove_is_run_thread:
  "run_thread 6 b Rem_full =
     map_option (\<lambda>(b', r). (b', Idle (Some (Removed r)))) (SharedBuffer_remove b)"
  by (simp add: numeral_eq_Suc SharedBuffer_remove_def Let_def split: option.splits prod.splits)

lemma sum_list_map_update:
  fixes f :: "'a \<Rightarrow> int"
  shows "i < length ts \<Longrightarrow>
    sum_list (map f (ts[i := p])) = sum_list (map f ts) - f (ts ! i) + f p"
proof (induction ts arbitrary: i)
  case Nil
  then show ?case by simp
next
  case (Cons t ts)
  then show ?case by (cases i) auto
qed

lemma sum_list_member_le:
  fixes f :: "'a \<Rightarrow> int"
  assumes "\<And>x. 0 \<le> f x"
  shows "i < length xs \<Longrightarrow> f (xs ! i) \<le> sum_list (map f xs)"
proof (induction xs arbitrary: i)
  case Nil
  then show ?case by simp
next
  case (Cons x xs)
  have nn: "0 \<le> sum_list (map f xs)"
    by (rule sum_list_nonneg) (auto simp: assms)
  show ?case
  proof (cases i)
    case 0
    with nn show ?thesis by simp
  next
    case (Suc j)
    with Cons.prems have "j < length xs" by simp
    from Cons.IH[OF this] assms[of x] Suc show ?thesis by simp
  qed
qed

lemma thread_step_permits:
  "thread_step b p = Some (b', p') \<Longrightarrow>
   int (empty_sem b') + int (full_sem b') + held p' = int (empty_sem b) + int (full_sem b) + held p"
  by (cases p) (auto simp: sem_acquire_def sem_release_def split: option.splits if_splits)

lemma reachable_permits:
  "reachable C n cfg \<Longrightarrow>
   int (empty_sem (fst cfg)) + int (full_sem (fst cfg)) + sum_list (map held (snd cfg)) = C"
proof (induction rule: reachable.induct)
  case (init C b n)
  then show ?case by (auto simp: SharedBuffer_init_def sum_list_replicate split: if_splits)
next
  case (call_insert C n b ts i r item)
  then show ?case by (simp add: sum_list_map_update)
next
  case (call_remove C n b ts i r)
  then show ?case by (simp add: sum_list_map_update)
next
  case (run C n b ts i b' p)
  from thread_step_permits[OF run(3)] run(2) run(4) show ?case
    by (simp add: sum_list_map_update)
qed

lemma idle_held: "list_all idle ts \<Longrightarrow> sum_list (map held ts) = 0"
proof (induction ts)
  case Nil
  then show ?case by simp
next
  case (Cons t ts)
  then show ?case by (cases t) auto
qed

lemma run_calls_permits:
  "int (empty_sem b) + int (full_sem b) = C \<Longrightarrow> run_calls b cs = Some (b', rs) \<Longrightarrow>
   int (empty_sem b') + int (full_sem b') = C"
proof (induction cs arbitrary: b rs)
  case Nil
  then show ?case by simp
next
  case (Cons c cs)
  show ?case
  proof (cases c)
    case (Insert item)
    with Cons.prems(2) obtain b1 r rs1 where
      s: "SharedBuffer_insert b item = Some (b1, r)" and t: "run_calls b1 cs = Some (b', rs1)"
      by (auto split: option.splits prod.splits)
    from s Cons.prems(1) have "int (empty_sem b1) + int (full_sem b1) = C"
      by (auto simp: local_defs split: if_splits option.splits)
    from Cons.IH[OF this t] show ?thesis .
  next
    case Remove
    with Cons.prems(2) obtain b1 r rs1 where
      s: "SharedBuffer_remove b = Some (b1, r)" and t: "run_calls b1 cs = Some (b', rs1)"
      by (auto split: option.splits prod.splits)
    from s Cons.prems(1) have "int (empty_sem b1) + int (full_sem b1) = C"
      by (auto simp: local_defs split: if_splits option.splits list.splits)
    from Cons.IH[OF this t] show ?thesis .
  qed
qed

lemma perform_reachable:
  assumes "reachable C n cfg" and "perform cfg c = Some cfg'"
  shows "reachable C n cfg'"
proof (cases cfg)
  case (Pair b ts)
  show ?thesis
  proof (cases c)
    case (Call i cl)
    with assms(2) Pair have i: "i < length ts" and d: "idle (ts ! i)"
      and e: "cfg' = (b, ts[i := (case cl of Insert item \<Rightarrow> Ins_empty item | Remove \<Rightarrow> Rem_full)])"
      by (auto split: if_splits)
    from d obtain r where r: "ts ! i = Idle r" by (cases "ts ! i") auto
    from assms(1) Pair have "reachable C n (b, ts)" by simp
    from reachable.call_insert[OF this i r] reachable.call_remove[OF this i r] e
    show ?thesis by (cases cl) auto
  next
    case (Run i)
    with assms(2) Pair obtain b' p where i: "i < length ts"
      and s: "thread_step b (ts ! i) = Some (b', p)" and e: "cfg' = (b', ts[i := p])"
      by (auto split: if_splits option.splits)
    from assms(1) Pair have "reachable C n (b, ts)" by simp
    from reachable.run[OF this i s] e show ?thesis by simp
  qed
qed

lemma schedule_reachable:
  "reachable C n cfg \<Longrightarrow> schedule cfg cs = Some cfg' \<Longrightarrow> reachable C n cfg'"
proof (induction cs arbitrary: cfg)
  case Nil
  then show ?case by simp
next
  case (Cons c cs)
  from Cons.prems(2) obtain cfg1 where p: "perform cfg c = Some cfg1"
    and r: "schedule cfg1 cs = Some cfg'"
    by (auto split: option.splits)
  from Cons.IH[OF perform_reachable[OF Cons.prems(1) p] r] show ?case .
qed

lemma thread_step_slots:
  "thread_step b p = Some (b', p') \<Longrightarrow>
   maxsize (buffer b') = maxsize (buffer b) \<and>
   int (empty_sem b') + qsize (buffer b') + slot_in_hand p' =
   int (empty_sem b) + qsize (buffer b) + slot_in_hand p"
  by (cases p)
    (auto simp: sem_acquire_def sem_release_def Queue_put_def Queue_get_def qsize_def
      split: option.splits if_splits list.splits)

lemma reachable_slots:
  "reachable C n cfg \<Longrightarrow>
   int (empty_sem (fst cfg)) + qsize (buffer (fst cfg)) + sum_list (map slot_in_hand (snd cfg)) = C"
proof (induction rule: reachable.induct)
  case (init C b n)
  then show ?case
    by (auto simp: SharedBuffer_init_def Queue_init_def qsize_def sum_list_replicate
        split: if_splits)
next
  case (call_insert C n b ts i r item)
  then show ?case by (simp add: sum_list_map_update)
next
  case (call_remove C n b ts i r)
  then show ?case by (simp add: sum_list_map_update)
next
  case (run C n b ts i b' p)
  from thread_step_slots[OF run(3)] run(2) run(4) show ?case
    by (simp add: sum_list_map_update)
qed

lemma slot_in_hand_nonneg: "0 \<le> slot_in_hand p"
  by (cases p) auto

lemma reachable_capacity:
  assumes "reachable C n (b, ts)"
  shows "0 \<le> get_size b \<and> get_size b \<le> C"
proof -
  have "0 \<le> sum_list (map slot_in_hand ts)"
    by (rule sum_list_nonneg) (auto simp: slot_in_hand_nonneg)
  with reachable_slots[OF assms] show ?thesis
    by (simp add: get_size_def qsize_def)
qed

text \<open>
  No call in progress is ever stuck: in every reachable configuration each thread that
  is inside a call can take its next step, since \<open>put\<close> finds room, \<open>get\<close> finds an item and
  \<open>_lock\<close> is free.
\<close>

lemma thread_step_items:
  "thread_step b p = Some (b', p') \<Longrightarrow>
   lock_held b' = lock_held b \<and>
   int (full_sem b') + unsignalled p' - qsize (buffer b') =
   int (full_sem b) + unsignalled p - qsize (buffer b)"
  by (cases p)
    (auto simp: sem_acquire_def sem_release_def Queue_put_def Queue_get_def qsize_def
      split: option.splits if_splits list.splits)

lemma reachable_items:
  "reachable C n cfg \<Longrightarrow>
   \<not> lock_held (fst cfg) \<and> maxsize (buffer (fst cfg)) = C \<and>
   int (full_sem (fst cfg)) + sum_list (map unsignalled (snd cfg)) = qsize (buffer (fst cfg))"
proof (induction rule: reachable.induct)
  case (init C b n)
  then show ?case
    by (auto simp: SharedBuffer_init_def Queue_init_def qsize_def sum_list_replicate
        split: if_splits)
next
  case (call_insert C n b ts i r item)
  then show ?case by (simp add: sum_list_map_update)
next
  case (call_remove C n b ts i r)
  then show ?case by (simp add: sum_list_map_update)
next
  case (run C n b ts i b' p)
  from thread_step_items[OF run(3)] thread_step_slots[OF run(3)] run(2) run(4) show ?case
    by (simp add: sum_list_map_update)
qed

lemma unsignalled_nonneg: "0 \<le> unsignalled p"
  by (cases p) auto

lemma reachable_not_stuck:
  assumes "reachable C n (b, ts)" and "i < length ts" and "\<not> idle (ts ! i)"
  shows "\<exists>b' p'. thread_step b (ts ! i) = Some (b', p')"
proof -
  from reachable_items[OF assms(1)] have l: "\<not> lock_held b" and m: "maxsize (buffer b) = C"
    and f: "int (full_sem b) + sum_list (map unsignalled ts) = qsize (buffer b)"
    by simp_all
  from reachable_slots[OF assms(1)]
  have e: "int (empty_sem b) + qsize (buffer b) + sum_list (map slot_in_hand ts) = C"
    by simp
  have s: "slot_in_hand (ts ! i) \<le> sum_list (map slot_in_hand ts)"
    by (rule sum_list_member_le[OF slot_in_hand_nonneg assms(2)])
  have u: "unsignalled (ts ! i) \<le> sum_list (map unsignalled ts)"
    by (rule sum_list_member_le[OF unsignalled_nonneg assms(2)])
  show ?thesis
  proof (cases "ts ! i")
    case (Idle r)
    with assms(3) show ?thesis by simp
  next
    case (Ins_put item)
    with s e m have "\<not> Queue_full (buffer b)" by (simp add: Queue_full_def)
    with Ins_put show ?thesis by (simp add: Queue_put_def)
  next
    case Rem_get
    with u f have "items (buffer b) \<noteq> []" by (auto simp: qsize_def)
    with Rem_get show ?thesis by (cases "items (buffer b)") (simp_all add: Queue_get_def)
  qed (use l in \<open>auto simp: sem_acquire_def split: option.splits\<close>)
qed

lemma demo_interleaving:
  "reachable 2 2
     (\<lparr> buffer = \<lparr> maxsize = 2, items = [] \<rparr>, mutex = 0, empty_sem = 0, full_sem = 0,
        produced_count = 0, consumed_count = 0, lock_held = False \<rparr>,
      [Ins_put 5, Ins_giveback])"
    "reachable 2 2
     (\<lparr> buffer = \<lparr> maxsize = 2, items = [5] \<rparr>, mutex = 1, empty_sem = 1, full_sem = 1,
        produced_count = 1, consumed_count = 0, lock_held = False \<rparr>,
      [Idle (Some (Inserted True)), Idle (Some (Inserted False))])"
proof -
  let ?b = "\<lambda>q m e f p. \<lparr> buffer = \<lparr> maxsize = 2, items = q \<rparr>, mutex = m, empty_sem = e,
        full_sem = f, produced_count = p, consumed_count = 0, lock_held = False \<rparr>"
  have "SharedBuffer_init 2 = Inr (?b [] 1 2 0 0)"
    by (simp add: SharedBuffer_init_def Queue_init_def)
  from reachable.init[OF this, of 2]
  have r0: "reachable 2 2 (?b [] 1 2 0 0, [Idle None, Idle None])"
    by (simp add: numeral_2_eq_2)
  have "schedule (?b [] 1 2 0 0, [Idle None, Idle None])
          [Call 0 (Insert 5), Run 0, Run 0, Call 1 (Insert 6), Run 1, Run 1] =
        Some (?b [] 0 0 0 0, [Ins_put 5, Ins_giveback])"
    by (simp add: sem_acquire_def)
  from schedule_reachable[OF r0 this]
  show r1: "reachable 2 2 (?b [] 0 0 0 0, [Ins_put 5, Ins_giveback])" .
  have "schedule (?b [] 0 0 0 0, [Ins_put 5, Ins_giveback])
          [Run 1, Run 0, Run 0, Run 0, Run 0] =
        Some (?b [5] 1 1 1 1, [Idle (Some (Inserted True)), Idle (Some (Inserted False))])"
    by (simp add: sem_release_def Queue_put_def Queue_full_def qsize_def)
  from schedule_reachable[OF r1 this]
  show "reachable 2 2
      (?b [5] 1 1 1 1, [Idle (Some (Inserted True)), Idle (Some (Inserted False))])" .
qed

text \<open>
  C1 (permit conservation). Calls made one after the other: from any state of the buffer
  in which the permits of \<open>empty\<close> and \<open>full\<close> add up to \<open>C\<close>, whatever the \<open>mutex\<close> (free, or
  held so that a call times out at the mutex gate), they add up to \<open>C\<close> again after every
  sequence of calls that have returned, successfully or by a timeout at either gate. On a
  buffer built by \<open>SharedBuffer(C)\<close> every call of such a sequence returns, and the permits
  add up to \<open>C\<close> after it. Calls made by several threads at once: in every configuration
  reachable on a buffer built by \<open>SharedBuffer(C)\<close>, the permits of \<open>empty\<close> and \<open>full\<close> and
  the permits held by the calls in progress add up to \<open>C\<close>; a thread that has returned from
  its call holds none, so when every call has returned the permits of \<open>empty\<close> and \<open>full\<close>
  add up to \<open>C\<close>.
\<close>

theorem permit_conservation:
  "(int (empty_sem b) + int (full_sem b) = C \<and> run_calls b cs = Some (b', rs) \<longrightarrow>
      int (empty_sem b') + int (full_sem b') = C) \<and>
   (SharedBuffer_init C = Inr b0 \<longrightarrow>
      (\<exists>b1 rs1. run_calls b0 cs = Some (b1, rs1) \<and>
         int (empty_sem b1) + int (full_sem b1) = C)) \<and>
   (reachable C n (sb, ts) \<longrightarrow>
      int (empty_sem sb) + int (full_sem sb) + sum_list (map held ts) = C \<and>
      (list_all idle ts \<longrightarrow> int (empty_sem sb) + int (full_sem sb) = C))"
proof (intro conjI impI)
  assume "int (empty_sem b) + int (full_sem b) = C \<and> run_calls b cs = Some (b', rs)"
  then show "int (empty_sem b') + int (full_sem b') = C"
    using run_calls_permits by blast
next
  assume "SharedBuffer_init C = Inr b0"
  then have "local_inv C b0" by (rule init_inv)
  from run_calls_inv[OF this, of cs] obtain b1 rs1
    where "run_calls b0 cs = Some (b1, rs1)" and "local_inv C b1"
    by blast
  then show "\<exists>b1 rs1. run_calls b0 cs = Some (b1, rs1) \<and>
         int (empty_sem b1) + int (full_sem b1) = C"
    by (auto simp: local_inv_def)
next
  assume r: "reachable C n (sb, ts)"
  from reachable_permits[OF r]
  show e: "int (empty_sem sb) + int (full_sem sb) + sum_list (map held ts) = C"
    by simp
  assume "list_all idle ts"
  from idle_held[OF this] e show "int (empty_sem sb) + int (full_sem sb) = C"
    by simp
qed

theorem permit_conservation_witness:
  "int (empty_sem
        \<lparr> buffer = \<lparr> maxsize = 2, items = [7] \<rparr>, mutex = 0, empty_sem = 1, full_sem = 1,
          produced_count = 1, consumed_count = 0, lock_held = False \<rparr>) +
   int (full_sem
        \<lparr> buffer = \<lparr> maxsize = 2, items = [7] \<rparr>, mutex = 0, empty_sem = 1, full_sem = 1,
          produced_count = 1, consumed_count = 0, lock_held = False \<rparr>) = 2 \<and>
   run_calls
     \<lparr> buffer = \<lparr> maxsize = 2, items = [7] \<rparr>, mutex = 0, empty_sem = 1, full_sem = 1,
       produced_count = 1, consumed_count = 0, lock_held = False \<rparr> [Insert 8, Remove] =
   Some (\<lparr> buffer = \<lparr> maxsize = 2, items = [7] \<rparr>, mutex = 0, empty_sem = 1, full_sem = 1,
            produced_count = 1, consumed_count = 0, lock_held = False \<rparr>,
         [Inserted False, Removed None]) \<and>
   SharedBuffer_init 2 =
     Inr \<lparr> buffer = \<lparr> maxsize = 2, items = [] \<rparr>, mutex = 1, empty_sem = 2, full_sem = 0,
           produced_count = 0, consumed_count = 0, lock_held = False \<rparr> \<and>
   (\<exists>b1 rs1. run_calls
       \<lparr> buffer = \<lparr> maxsize = 2, items = [] \<rparr>, mutex = 1, empty_sem = 2, full_sem = 0,
         produced_count = 0, consumed_count = 0, lock_held = False \<rparr>
       [Remove, Insert 1, Insert 2, Insert 3] = Some (b1, rs1) \<and>
      int (empty_sem b1) + int (full_sem b1) = 2) \<and>
   reachable 2 2
     (\<lparr> buffer = \<lparr> maxsize = 2, items = [] \<rparr>, mutex = 0, empty_sem = 0, full_sem = 0,
        produced_count = 0, consumed_count = 0, lock_held = False \<rparr>,
      [Ins_put 5, Ins_giveback]) \<and>
   int (empty_sem
        \<lparr> buffer = \<lparr> maxsize = 2, items = [] \<rparr>, mutex = 0, empty_sem = 0, full_sem = 0,
          produced_count = 0, consumed_count = 0, lock_held = False \<rparr>) +
   int (full_sem
        \<lparr> buffer = \<lparr> maxsize = 2, items = [] \<rparr>, mutex = 0, empty_sem = 0, full_sem = 0,
          produced_count = 0, consumed_count = 0, lock_held = False \<rparr>) +
   sum_list (map held [Ins_put 5, Ins_giveback]) = 2 \<and>
   reachable 2 2
     (\<lparr> buffer = \<lparr> maxsize = 2, items = [5] \<rparr>, mutex = 1, empty_sem = 1, full_sem = 1,
        produced_count = 1, consumed_count = 0, lock_held = False \<rparr>,
      [Idle (Some (Inserted True)), Idle (Some (Inserted False))]) \<and>
   list_all idle [Idle (Some (Inserted True)), Idle (Some (Inserted False))] \<and>
   int (empty_sem
        \<lparr> buffer = \<lparr> maxsize = 2, items = [5] \<rparr>, mutex = 1, empty_sem = 1, full_sem = 1,
          produced_count = 1, consumed_count = 0, lock_held = False \<rparr>) +
   int (full_sem
        \<lparr> buffer = \<lparr> maxsize = 2, items = [5] \<rparr>, mutex = 1, empty_sem = 1, full_sem = 1,
          produced_count = 1, consumed_count = 0, lock_held = False \<rparr>) = 2"
proof -
  let ?b = "\<lambda>q m e f p. \<lparr> buffer = \<lparr> maxsize = 2, items = q \<rparr>, mutex = m, empty_sem = e,
        full_sem = f, produced_count = p, consumed_count = 0, lock_held = False \<rparr>"
  have seq: "run_calls (?b [7] 0 1 1 1) [Insert 8, Remove] =
      Some (?b [7] 0 1 1 1, [Inserted False, Removed None])"
    by (simp add: local_defs)
  have ini: "SharedBuffer_init 2 = Inr (?b [] 1 2 0 0)"
    by (simp add: SharedBuffer_init_def Queue_init_def)
  have one: "(int (empty_sem (?b [7] 0 1 1 1)) + int (full_sem (?b [7] 0 1 1 1)) = 2 \<and>
      run_calls (?b [7] 0 1 1 1) [Insert 8, Remove] =
        Some (?b [7] 0 1 1 1, [Inserted False, Removed None]) \<longrightarrow>
      int (empty_sem (?b [7] 0 1 1 1)) + int (full_sem (?b [7] 0 1 1 1)) = 2)"
    and two: "SharedBuffer_init 2 = Inr (?b [] 1 2 0 0) \<longrightarrow>
      (\<exists>b1 rs1. run_calls (?b [] 1 2 0 0) [Remove, Insert 1, Insert 2, Insert 3] =
          Some (b1, rs1) \<and> int (empty_sem b1) + int (full_sem b1) = 2)"
    using
      permit_conservation[of "?b [7] 0 1 1 1" 2 "[Insert 8, Remove]" "?b [7] 0 1 1 1"
        "[Inserted False, Removed None]" "?b [] 1 2 0 0"]
      permit_conservation[of _ 2 "[Remove, Insert 1, Insert 2, Insert 3]" _ _ "?b [] 1 2 0 0"]
    by blast+
  have three: "reachable 2 2 (?b [] 0 0 0 0, [Ins_put 5, Ins_giveback]) \<longrightarrow>
      int (empty_sem (?b [] 0 0 0 0)) + int (full_sem (?b [] 0 0 0 0)) +
      sum_list (map held [Ins_put 5, Ins_giveback]) = 2"
    and four: "reachable 2 2
        (?b [5] 1 1 1 1, [Idle (Some (Inserted True)), Idle (Some (Inserted False))]) \<longrightarrow>
      (list_all idle [Idle (Some (Inserted True)), Idle (Some (Inserted False))] \<longrightarrow>
       int (empty_sem (?b [5] 1 1 1 1)) + int (full_sem (?b [5] 1 1 1 1)) = 2)"
    using
      permit_conservation[of _ 2 _ _ _ _ 2 "?b [] 0 0 0 0" "[Ins_put 5, Ins_giveback]"]
      permit_conservation[of _ 2 _ _ _ _ 2 "?b [5] 1 1 1 1"
        "[Idle (Some (Inserted True)), Idle (Some (Inserted False))]"]
    by blast+
  show ?thesis
    using seq ini demo_interleaving one two three four
    by simp
qed

section \<open>Requests handled by the server\<close>

lemma producer_full:
  "\<not> lock s \<Longrightarrow> Queue_full (server_buffer s) \<Longrightarrow>
   \<exists>r. handle_producer s req = Some (s, r) \<and> map_of r ''status'' = Some (PyStr ''error'') \<and>
     (\<exists>rest. map_of r ''message'' = Some (PyStr (''Buffer is full'' @ rest)))"
  by (simp add: handle_producer_def Let_def)

lemma producer_ok:
  "\<not> lock s \<Longrightarrow> \<not> Queue_full (server_buffer s) \<Longrightarrow>
   \<exists>s' r. handle_producer s req = Some (s', r) \<and>
     items (server_buffer s') = items (server_buffer s) @ [dict_get req ''item'' PyNone] \<and>
     map_of r ''status'' = Some (PyStr ''success'') \<and>
     map_of r ''buffer_size'' = Some (PyInt (qsize (server_buffer s'))) \<and>
     qsize (server_buffer s') = qsize (server_buffer s) + 1"
  by (simp add: handle_producer_def Let_def Queue_put_def qsize_def)

lemma consumer_empty:
  "\<not> lock s \<Longrightarrow> Queue_empty (server_buffer s) \<Longrightarrow>
   \<exists>r. handle_consumer s req = Some (s, r) \<and> map_of r ''status'' = Some (PyStr ''error'') \<and>
     (\<exists>rest. map_of r ''message'' = Some (PyStr (''Buffer is empty'' @ rest)))"
  by (simp add: handle_consumer_def Let_def)

lemma consumer_ok:
  "\<not> lock s \<Longrightarrow> \<not> Queue_empty (server_buffer s) \<Longrightarrow>
   \<exists>s' r item. handle_consumer s req = Some (s', r) \<and>
     items (server_buffer s) = item # items (server_buffer s') \<and>
     map_of r ''status'' = Some (PyStr ''success'') \<and>
     map_of r ''item'' = Some item \<and>
     map_of r ''buffer_size'' = Some (PyInt (qsize (server_buffer s'))) \<and>
     qsize (server_buffer s') = qsize (server_buffer s) - 1"
  by (auto simp: handle_consumer_def Let_def Queue_get_def Queue_empty_def qsize_def
      split: list.splits)

text \<open>
  C5 (fail-fast capacity contract). For every state of the server in which the lock is
  free, and every request dictionary: \<open>handle_producer\<close> on a full buffer answers status
  \<open>error\<close> with a message that begins \<open>Buffer is full\<close> and leaves the server as it was; on
  a buffer that is not full it appends the request's item to the queue and answers status
  \<open>success\<close> with \<open>buffer_size\<close> equal to the new size, one more than before.
  \<open>handle_consumer\<close> on an empty buffer answers status \<open>error\<close> with a message that begins
  \<open>Buffer is empty\<close> and leaves the server as it was; on a buffer that is not empty it
  takes the item at the front of the queue and answers status \<open>success\<close> with that item
  and the new size, one less than before.
\<close>

theorem fail_fast_contract:
  "\<not> lock s \<longrightarrow>
   (Queue_full (server_buffer s) \<longrightarrow>
      (\<exists>r. handle_producer s req = Some (s, r) \<and>
         map_of r ''status'' = Some (PyStr ''error'') \<and>
         (\<exists>rest. map_of r ''message'' = Some (PyStr (''Buffer is full'' @ rest))))) \<and>
   (\<not> Queue_full (server_buffer s) \<longrightarrow>
      (\<exists>s' r. handle_producer s req = Some (s', r) \<and>
         items (server_buffer s') = items (server_buffer s) @ [dict_get req ''item'' PyNone] \<and>
         map_of r ''status'' = Some (PyStr ''success'') \<and>
         map_of r ''buffer_size'' = Some (PyInt (qsize (server_buffer s'))) \<and>
         qsize (server_buffer s') = qsize (server_buffer s) + 1)) \<and>
   (Queue_empty (server_buffer s) \<longrightarrow>
      (\<exists>r. handle_consumer s req = Some (s, r) \<and>
         map_of r ''status'' = Some (PyStr ''error'') \<and>
         (\<exists>rest. map_of r ''message'' = Some (PyStr (''Buffer is empty'' @ rest))))) \<and>
   (\<not> Queue_empty (server_buffer s) \<longrightarrow>
      (\<exists>s' r item. handle_consumer s req = Some (s', r) \<and>
         items (server_buffer s) = item # items (server_buffer s') \<and>
         map_of r ''status'' = Some (PyStr ''success'') \<and>
         map_of r ''item'' = Some item \<and>
         map_of r ''buffer_size'' = Some (PyInt (qsize (server_buffer s'))) \<and>
         qsize (server_buffer s') = qsize (server_buffer s) - 1))"
  using producer_full[of s req] producer_ok[of s req] consumer_empty[of s req]
    consumer_ok[of s req]
  by blast

theorem fail_fast_contract_witness:
  "\<not> lock (SharedBufferServer_init 1) \<and>
   \<not> Queue_full (server_buffer (SharedBufferServer_init 1)) \<and>
   Queue_empty (server_buffer (SharedBufferServer_init 1)) \<and>
   (\<exists>s' r. handle_producer (SharedBufferServer_init 1)
              [''type'' \<mapsto> PyStr ''producer'', ''item'' \<mapsto> PyStr ''a''] = Some (s', r) \<and>
      items (server_buffer s') = [PyStr ''a''] \<and>
      map_of r ''status'' = Some (PyStr ''success'') \<and>
      map_of r ''buffer_size'' = Some (PyInt (qsize (server_buffer s'))) \<and>
      qsize (server_buffer s') = 1) \<and>
   (\<exists>r. handle_consumer (SharedBufferServer_init 1)
            [''type'' \<mapsto> PyStr ''producer'', ''item'' \<mapsto> PyStr ''a''] =
          Some (SharedBufferServer_init 1, r) \<and>
      map_of r ''status'' = Some (PyStr ''error'') \<and>
      (\<exists>rest. map_of r ''message'' = Some (PyStr (''Buffer is empty'' @ rest)))) \<and>
   \<not> lock \<lparr> buffer_size = 1, server_buffer = \<lparr> maxsize = 1, items = [PyStr ''a''] \<rparr>,
            lock = False, producer_count = 0, consumer_count = 0 \<rparr> \<and>
   Queue_full \<lparr> maxsize = 1, items = [PyStr ''a''] \<rparr> \<and>
   \<not> Queue_empty \<lparr> maxsize = 1, items = [PyStr ''a''] \<rparr> \<and>
   (\<exists>r. handle_producer
            \<lparr> buffer_size = 1, server_buffer = \<lparr> maxsize = 1, items = [PyStr ''a''] \<rparr>,
              lock = False, producer_count = 0, consumer_count = 0 \<rparr>
            [''type'' \<mapsto> PyStr ''producer'', ''item'' \<mapsto> PyStr ''b''] =
          Some (\<lparr> buffer_size = 1, server_buffer = \<lparr> maxsize = 1, items = [PyStr ''a''] \<rparr>,
                  lock = False, producer_count = 0, consumer_count = 0 \<rparr>, r) \<and>
      map_of r ''status'' = Some (PyStr ''error'') \<and>
      (\<exists>rest. map_of r ''message'' = Some (PyStr (''Buffer is full'' @ rest)))) \<and>
   (\<exists>s' r item. handle_consumer
            \<lparr> buffer_size = 1, server_buffer = \<lparr> maxsize = 1, items = [PyStr ''a''] \<rparr>,
              lock = False, producer_count = 0, consumer_count = 0 \<rparr>
            [''type'' \<mapsto> PyStr ''producer'', ''item'' \<mapsto> PyStr ''b''] = Some (s', r) \<and>
      [PyStr ''a''] = item # items (server_buffer s') \<and>
      map_of r ''status'' = Some (PyStr ''success'') \<and>
      map_of r ''item'' = Some item \<and>
      map_of r ''buffer_size'' = Some (PyInt (qsize (server_buffer s'))) \<and>
      qsize (server_buffer s') = 0)"
  using
    fail_fast_contract[of "SharedBufferServer_init 1"
      "[''type'' \<mapsto> PyStr ''producer'', ''item'' \<mapsto> PyStr ''a'']"]
    fail_fast_contract[of
      "\<lparr> buffer_size = 1, server_buffer = \<lparr> maxsize = 1, items = [PyStr ''a''] \<rparr>,
         lock = False, producer_count = 0, consumer_count = 0 \<rparr>"
      "[''type'' \<mapsto> PyStr ''producer'', ''item'' \<mapsto> PyStr ''b'']"]
  by (simp add: SharedBufferServer_init_def Queue_init_def Queue_full_def Queue_empty_def
      qsize_def dict_get_def)

text \<open>
  C7 (unknown request type). For every state of the server and every request dictionary
  whose \<open>type\<close> entry is neither \<open>"producer"\<close> nor \<open>"consumer"\<close>, a missing entry included
  (\<open>request.get('type')\<close> is then \<open>None\<close>), \<open>handle_client\<close> replies status \<open>error\<close> with the
  message \<open>Invalid client type\<close> and returns the server state it was given.
\<close>

theorem unknown_request_type:
  "(dict_get req ''type'' PyNone \<noteq> PyStr ''producer'' \<and>
    dict_get req ''type'' PyNone \<noteq> PyStr ''consumer'' \<longrightarrow>
      handle_client s (Request req) =
        Some (s, Some [(''status'', PyStr ''error''),
                       (''message'', PyStr ''Invalid client type'')])) \<and>
   (req ''type'' = None \<longrightarrow>
      handle_client s (Request req) =
        Some (s, Some [(''status'', PyStr ''error''),
                       (''message'', PyStr ''Invalid client type'')]))"
  by (simp add: handle_client_def Let_def dict_get_def)

theorem unknown_request_type_witness:
  "dict_get [''type'' \<mapsto> PyStr ''admin''] ''type'' PyNone \<noteq> PyStr ''producer'' \<and>
   dict_get [''type'' \<mapsto> PyStr ''admin''] ''type'' PyNone \<noteq> PyStr ''consumer'' \<and>
   handle_client (SharedBufferServer_init 2) (Request [''type'' \<mapsto> PyStr ''admin'']) =
     Some (SharedBufferServer_init 2,
           Some [(''status'', PyStr ''error''), (''message'', PyStr ''Invalid client type'')]) \<and>
   [''id'' \<mapsto> PyStr ''7''] ''type'' = None \<and>
   handle_client (SharedBufferServer_init 2) (Request [''id'' \<mapsto> PyStr ''7'']) =
     Some (SharedBufferServer_init 2,
           Some [(''status'', PyStr ''error''), (''message'', PyStr ''Invalid client type'')])"
  using
    unknown_request_type[of "[''type'' \<mapsto> PyStr ''admin'']" "SharedBufferServer_init 2"]
    unknown_request_type[of "[''id'' \<mapsto> PyStr ''7'']" "SharedBufferServer_init 2"]
  by (simp add: dict_get_def)

text \<open>
  C10 (missing payload accepted). A producer request with no \<open>item\<close> entry, handled while
  the lock is free and the buffer is not full, is not rejected: \<open>request.get('item')\<close> is
  \<open>None\<close>, the server appends \<open>None\<close> to the queue and replies status \<open>success\<close>. When the
  buffer was empty before, the next consumer request is answered with status \<open>success\<close>
  and the item \<open>None\<close>.
\<close>

theorem missing_payload_accepted:
  "\<not> lock s \<and> \<not> Queue_full (server_buffer s) \<and>
   req ''type'' = Some (PyStr ''producer'') \<and> req ''item'' = None \<longrightarrow>
   (\<exists>s' r. handle_client s (Request req) = Some (s', Some r) \<and>
      map_of r ''status'' = Some (PyStr ''success'') \<and>
      items (server_buffer s') = items (server_buffer s) @ [PyNone] \<and>
      (items (server_buffer s) = [] \<and> creq ''type'' = Some (PyStr ''consumer'') \<longrightarrow>
         (\<exists>s'' r'. handle_client s' (Request creq) = Some (s'', Some r') \<and>
            map_of r' ''status'' = Some (PyStr ''success'') \<and>
            map_of r' ''item'' = Some PyNone \<and>
            items (server_buffer s'') = [])))"
  by (auto simp: handle_client_def handle_producer_def handle_consumer_def dict_get_def
      Queue_put_def Queue_get_def Queue_empty_def qsize_def Let_def)

theorem missing_payload_accepted_witness:
  "\<not> lock (SharedBufferServer_init 2) \<and>
   \<not> Queue_full (server_buffer (SharedBufferServer_init 2)) \<and>
   [''type'' \<mapsto> PyStr ''producer'', ''id'' \<mapsto> PyStr ''1''] ''type'' = Some (PyStr ''producer'') \<and>
   [''type'' \<mapsto> PyStr ''producer'', ''id'' \<mapsto> PyStr ''1''] ''item'' = None \<and>
   (\<exists>s' r. handle_client (SharedBufferServer_init 2)
              (Request [''type'' \<mapsto> PyStr ''producer'', ''id'' \<mapsto> PyStr ''1'']) =
            Some (s', Some r) \<and>
      map_of r ''status'' = Some (PyStr ''success'') \<and>
      items (server_buffer s') = [PyNone] \<and>
      (\<exists>s'' r'. handle_client s' (Request [''type'' \<mapsto> PyStr ''consumer'']) =
                  Some (s'', Some r') \<and>
         map_of r' ''status'' = Some (PyStr ''success'') \<and>
         map_of r' ''item'' = Some PyNone \<and>
         items (server_buffer s'') = []))"
  using
    missing_payload_accepted[of "SharedBufferServer_init 2"
      "[''type'' \<mapsto> PyStr ''producer'', ''id'' \<mapsto> PyStr ''1'']"
      "[''type'' \<mapsto> PyStr ''consumer'']"]
  by (simp add: SharedBufferServer_init_def Queue_init_def Queue_full_def qsize_def)

section \<open>The capacity bound\<close>

lemma srv_init_inv: "1 \<le> C \<Longrightarrow> srv_inv C (SharedBufferServer_init C)"
  by (simp add: srv_inv_def SharedBufferServer_init_def Queue_init_def qsize_def)

lemma handle_client_inv:
  "1 \<le> C \<Longrightarrow> srv_inv C s \<Longrightarrow> \<exists>s' r. handle_client s d = Some (s', r) \<and> srv_inv C s'"
  by (cases d)
    (auto simp: handle_client_def handle_producer_def handle_consumer_def dict_get_def
      Queue_put_def Queue_get_def Queue_full_def Queue_empty_def qsize_def Let_def srv_inv_def
      split: list.splits)

lemma serve_inv:
  "1 \<le> C \<Longrightarrow> srv_inv C s \<Longrightarrow> \<exists>s' rs. serve s ds = Some (s', rs) \<and> srv_inv C s'"
proof (induction ds arbitrary: s)
  case Nil
  then show ?case by simp
next
  case (Cons d ds)
  from handle_client_inv[OF Cons.prems, of d] obtain s1 r
    where h: "handle_client s d = Some (s1, r)" and i: "srv_inv C s1"
    by blast
  from Cons.IH[OF Cons.prems(1) i] obtain s2 rs
    where "serve s1 ds = Some (s2, rs)" "srv_inv C s2"
    by blast
  with h show ?case by simp
qed

text \<open>
  C3 as stated fails on the server for capacity 0: \<open>queue.Queue(maxsize=0)\<close> is unbounded,
  \<open>full()\<close> is never true, and one producer request leaves one item in a buffer of
  capacity 0.
\<close>

theorem capacity_invariant_counterexample:
  "map_option (qsize \<circ> server_buffer \<circ> fst)
     (serve (SharedBufferServer_init 0)
        [Request [''type'' \<mapsto> PyStr ''producer'', ''item'' \<mapsto> PyStr ''a'']]) = Some 1 \<and>
   \<not> (1::int) \<le> 0"
  by (simp add: SharedBufferServer_init_def Queue_init_def handle_client_def
      handle_producer_def dict_get_def Queue_put_def Queue_full_def qsize_def Let_def)

text \<open>
  C3 (capacity invariant), amended. On the local engine, for every capacity \<open>C\<close> that
  \<open>SharedBuffer(C)\<close> accepts and every sequence of \<open>insert\<close> and \<open>remove\<close> calls made one
  after the other, every call returns and the size of the buffer stays between 0 and
  \<open>C\<close>. On the server, for every \<open>buffer_size = C\<close> of at least one and every sequence of
  connections handled one after the other, every handler returns and the size of the
  buffer stays between 0 and \<open>C\<close>. The bound on the local engine also holds while calls
  of several threads are in progress: in every configuration that threads reach on a
  buffer built by \<open>SharedBuffer(C)\<close>, the size of the buffer is between 0 and \<open>C\<close>.
\<close>

theorem capacity_invariant:
  "(SharedBuffer_init C = Inr b0 \<longrightarrow>
      (\<exists>b rs. run_calls b0 cs = Some (b, rs) \<and> 0 \<le> get_size b \<and> get_size b \<le> C)) \<and>
   (1 \<le> C \<longrightarrow>
      (\<exists>s rs. serve (SharedBufferServer_init C) ds = Some (s, rs) \<and>
         0 \<le> qsize (server_buffer s) \<and> qsize (server_buffer s) \<le> C)) \<and>
   (reachable C n (sb, ts) \<longrightarrow> 0 \<le> get_size sb \<and> get_size sb \<le> C)"
proof (intro conjI impI)
  assume "SharedBuffer_init C = Inr b0"
  then have "local_inv C b0" by (rule init_inv)
  from run_calls_inv[OF this, of cs] obtain b rs
    where r: "run_calls b0 cs = Some (b, rs)" and i: "local_inv C b"
    by blast
  from i have "0 \<le> get_size b" and "get_size b \<le> C"
    by (auto simp: local_inv_def get_size_def qsize_def)
  with r show "\<exists>b rs. run_calls b0 cs = Some (b, rs) \<and> 0 \<le> get_size b \<and> get_size b \<le> C"
    by blast
next
  assume c: "1 \<le> C"
  from serve_inv[OF c srv_init_inv[OF c], of ds] obtain s rs
    where r: "serve (SharedBufferServer_init C) ds = Some (s, rs)" and i: "srv_inv C s"
    by blast
  from i have "0 \<le> qsize (server_buffer s)" and "qsize (server_buffer s) \<le> C"
    by (auto simp: srv_inv_def qsize_def)
  with r show "\<exists>s rs. serve (SharedBufferServer_init C) ds = Some (s, rs) \<and>
         0 \<le> qsize (server_buffer s) \<and> qsize (server_buffer s) \<le> C"
    by blast
next
  assume "reachable C n (sb, ts)"
  from reachable_capacity[OF this] show "0 \<le> get_size sb" and "get_size sb \<le> C"
    by simp_all
qed

theorem capacity_invariant_witness:
  "SharedBuffer_init 1 =
     Inr \<lparr> buffer = \<lparr> maxsize = 1, items = [] \<rparr>, mutex = 1, empty_sem = 1, full_sem = 0,
           produced_count = 0, consumed_count = 0, lock_held = False \<rparr> \<and>
   (\<exists>b rs. run_calls
       \<lparr> buffer = \<lparr> maxsize = 1, items = [] \<rparr>, mutex = 1, empty_sem = 1, full_sem = 0,
         produced_count = 0, consumed_count = 0, lock_held = False \<rparr>
       [Insert 1, Insert 2, Remove, Remove] = Some (b, rs) \<and>
      0 \<le> get_size b \<and> get_size b \<le> 1) \<and>
   (1::int) \<le> 1 \<and>
   (\<exists>s rs. serve (SharedBufferServer_init 1)
       [Request [''type'' \<mapsto> PyStr ''producer'', ''item'' \<mapsto> PyStr ''a''],
        Request [''type'' \<mapsto> PyStr ''producer'', ''item'' \<mapsto> PyStr ''b'']] = Some (s, rs) \<and>
      0 \<le> qsize (server_buffer s) \<and> qsize (server_buffer s) \<le> 1) \<and>
   reachable 2 2
     (\<lparr> buffer = \<lparr> maxsize = 2, items = [5] \<rparr>, mutex = 1, empty_sem = 1, full_sem = 1,
        produced_count = 1, consumed_count = 0, lock_held = False \<rparr>,
      [Idle (Some (Inserted True)), Idle (Some (Inserted False))]) \<and>
   0 \<le> get_size
         \<lparr> buffer = \<lparr> maxsize = 2, items = [5] \<rparr>, mutex = 1, empty_sem = 1, full_sem = 1,
           produced_count = 1, consumed_count = 0, lock_held = False \<rparr> \<and>
   get_size
     \<lparr> buffer = \<lparr> maxsize = 2, items = [5] \<rparr>, mutex = 1, empty_sem = 1, full_sem = 1,
       produced_count = 1, consumed_count = 0, lock_held = False \<rparr> \<le> 2"
proof -
  have c: "SharedBuffer_init 1 =
     Inr \<lparr> buffer = \<lparr> maxsize = 1, items = [] \<rparr>, mutex = 1, empty_sem = 1, full_sem = 0,
           produced_count = 0, consumed_count = 0, lock_held = False \<rparr>"
    by (simp add: SharedBuffer_init_def Queue_init_def)
  show ?thesis
    using c
      capacity_invariant[of 1
        "\<lparr> buffer = \<lparr> maxsize = 1, items = [] \<rparr>, mutex = 1, empty_sem = 1, full_sem = 0,
           produced_count = 0, consumed_count = 0, lock_held = False \<rparr>"
        "[Insert 1, Insert 2, Remove, Remove]"
        "[Request [''type'' \<mapsto> PyStr ''producer'', ''item'' \<mapsto> PyStr ''a''],
          Request [''type'' \<mapsto> PyStr ''producer'', ''item'' \<mapsto> PyStr ''b'']]"]
      demo_interleaving(2)
      capacity_invariant[of 2
        "\<lparr> buffer = \<lparr> maxsize = 2, items = [] \<rparr>, mutex = 1, empty_sem = 2, full_sem = 0,
           produced_count = 0, consumed_count = 0, lock_held = False \<rparr>"
        "[]" "[]" 2
        "\<lparr> buffer = \<lparr> maxsize = 2, items = [5] \<rparr>, mutex = 1, empty_sem = 1, full_sem = 1,
           produced_count = 1, consumed_count = 0, lock_held = False \<rparr>"
        "[Idle (Some (Inserted True)), Idle (Some (Inserted False))]"]
    by simp
qed

section \<open>Retries of the remote clients\<close>

lemma produce_retries_all_fail:
  assumes "\<forall>w item. I w \<longrightarrow>
             \<not> fst (Producer_produce net pid w item) \<and> I (snd (Producer_produce net pid w item))"
  shows "I w \<Longrightarrow> \<exists>w'. I w' \<and> produce_retries net pid N item False retries w log =
           (False, max N retries, w', log @ replicate (nat (N - retries)) item)"
proof (induction "nat (N - retries)" arbitrary: retries w log)
  case 0
  then have "\<not> retries < N" by simp
  then show ?case using 0 by (subst produce_retries.simps) (auto simp: max_def)
next
  case (Suc k)
  then have lt: "retries < N" by simp
  obtain w1 where p: "Producer_produce net pid w item = (False, w1)" and i1: "I w1"
    using assms Suc.prems by (metis fst_conv snd_conv surj_pair)
  have k: "k = nat (N - (retries + 1))" using Suc(2) by simp
  from Suc(1)[OF k i1, of "log @ [item]"] obtain w' where i': "I w'" and
    r: "produce_retries net pid N item False (retries + 1) w1 (log @ [item]) =
          (False, max N (retries + 1), w', (log @ [item]) @ replicate (nat (N - (retries + 1))) item)"
    by blast
  have "nat (N - retries) = Suc (nat (N - (retries + 1)))" using lt by simp
  then have "replicate (nat (N - retries)) item = item # replicate (nat (N - (retries + 1))) item"
    by simp
  with r p lt i' show ?case
    by (subst produce_retries.simps) (auto simp: max_def)
qed

lemma production_loop_all_fail:
  assumes "\<forall>w item. I w \<longrightarrow>
             \<not> fst (Producer_produce net pid w item) \<and> I (snd (Producer_produce net pid w item))"
  shows "I w \<Longrightarrow>
    snd (production_loop net pid N xs w log) = log @ concat (map (replicate (nat N)) xs)"
proof (induction xs arbitrary: w log)
  case Nil
  then show ?case by simp
next
  case (Cons x xs)
  from produce_retries_all_fail[OF assms Cons.prems, of N x 0 log] obtain w1 where
    "I w1" "produce_retries net pid N x False 0 w log = (False, max N 0, w1, log @ replicate (nat N) x)"
    by auto
  then show ?case using Cons.IH[of w1 "log @ replicate (nat N) x"] by simp
qed

lemma consume_retries_all_fail:
  assumes "\<forall>w. I w \<longrightarrow>
             fst (Consumer_consume net cid w) = PyNone \<and> I (snd (Consumer_consume net cid w))"
  shows "I w \<Longrightarrow> retries < N \<Longrightarrow> \<exists>w'. I w' \<and> consume_retries net cid N PyNone retries w attempts =
           (True, PyNone, w', attempts + nat (N - retries))"
proof (induction "nat (N - retries)" arbitrary: retries w attempts)
  case 0
  then show ?case by simp
next
  case (Suc k)
  obtain w1 where c: "Consumer_consume net cid w = (PyNone, w1)" and i1: "I w1"
    using assms Suc.prems(1) by (metis fst_conv snd_conv surj_pair)
  show ?case
  proof (cases "retries + 1 < N")
    case True
    have k: "k = nat (N - (retries + 1))" using Suc(2) by simp
    from Suc(1)[OF k i1 True, of "attempts + 1"] obtain w' where "I w'"
      "consume_retries net cid N PyNone (retries + 1) w1 (attempts + 1) =
         (True, PyNone, w', attempts + 1 + nat (N - (retries + 1)))"
      by blast
    moreover have "attempts + 1 + nat (N - (retries + 1)) = attempts + nat (N - retries)"
      using True by simp
    ultimately show ?thesis using c Suc.prems True
      by (subst consume_retries.simps) auto
  next
    case False
    then have "nat (N - retries) = 1" using Suc.prems by simp
    then show ?thesis using c Suc.prems False i1
      by (subst consume_retries.simps) auto
  qed
qed

lemma consumption_all_fail:
  assumes "\<forall>w. I w \<longrightarrow>
             fst (Consumer_consume net cid w) = PyNone \<and> I (snd (Consumer_consume net cid w))"
    and "I w" and "1 \<le> N" and "0 < max_items"
  shows "\<exists>w'. Consumer_continuous_consumption net cid max_items N w = Some (0, w', nat N)"
proof -
  from consume_retries_all_fail[OF assms(1) assms(2), of 0 N 0] assms(3) obtain w' where
    "consume_retries net cid N PyNone 0 w 0 = (True, PyNone, w', nat N)"
    by auto
  then show ?thesis using assms(4)
    unfolding Consumer_continuous_consumption_def
    by (subst consumption_loop.simps) simp
qed

lemma consumption_loop_spins:
  assumes "consumption_loop net cid max_items max_retries items_consumed w attempts = Some y"
  shows "\<not> (max_retries \<le> 0 \<and> items_consumed < max_items)"
proof (rule consumption_loop.raw_induct
    [where P = "\<lambda>net cid mi mr ic w a y. \<not> (mr \<le> 0 \<and> ic < mi)", OF _ assms])
  fix loop :: "'a transport \<Rightarrow> pyval \<Rightarrow> int \<Rightarrow> int \<Rightarrow> int \<Rightarrow> 'a \<Rightarrow> nat \<Rightarrow> (int \<times> 'a \<times> nat) option"
  fix net cid mi mr ic w a y
  assume IH: "\<And>net cid mi mr ic w a y. loop net cid mi mr ic w a = Some y \<Longrightarrow> \<not> (mr \<le> 0 \<and> ic < mi)"
  assume step: "(if ic < mi then
        (case consume_retries net cid mr PyNone 0 w a of
           (returned, item, w', attempts') \<Rightarrow>
             if returned then Some (ic, w', attempts')
             else if item \<noteq> PyNone then loop net cid mi mr (ic + 1) w' attempts'
             else loop net cid mi mr ic w' attempts')
      else Some (ic, w, a)) = Some y"
  show "\<not> (mr \<le> 0 \<and> ic < mi)"
  proof
    assume c: "mr \<le> 0 \<and> ic < mi"
    then have "consume_retries net cid mr PyNone 0 w a = (False, PyNone, w, a)"
      by (subst consume_retries.simps) simp
    with step c have "loop net cid mi mr ic w a = Some y"
      by simp
    from IH[OF this] c show False by simp
  qed
qed

lemma consumption_never_returns:
  "max_retries \<le> 0 \<Longrightarrow> 0 < max_items \<Longrightarrow>
   Consumer_continuous_consumption net cid max_items max_retries w = None"
  unfolding Consumer_continuous_consumption_def
  using consumption_loop_spins[of net cid max_items max_retries 0 w 0]
  by (cases "consumption_loop net cid max_items max_retries 0 w 0") auto

lemma full_server_rejects:
  "\<not> lock s \<and> Queue_full (server_buffer s) \<Longrightarrow>
   Producer_produce server_transport pid s item = (False, s)"
  by (simp add: Producer_produce_def server_transport_def handle_client_def handle_producer_def
      dict_get_def Let_def)

lemma empty_server_rejects:
  "\<not> lock s \<and> Queue_empty (server_buffer s) \<Longrightarrow>
   Consumer_consume server_transport cid s = (PyNone, s)"
  by (simp add: Consumer_consume_def server_transport_def handle_client_def handle_consumer_def
      dict_get_def Let_def)

text \<open>
  Where the clients keep to the retry bound. Let every attempt fail: from the starting
  world on, each call of \<open>produce\<close> returns \<open>False\<close> (each call of \<open>consume\<close> returns \<open>None\<close>)
  and leaves a world in which the next one fails too, as a server that stays full (empty)
  does. Then a producer with \<open>max_retries = N\<close>, for \<open>N\<close> at least 0, calls \<open>produce\<close> exactly
  \<open>N\<close> times for each item, in the order of the items: it gives up the item after \<open>N\<close>
  failures and goes on with the next one. A consumer with \<open>max_retries = N\<close>, for \<open>N\<close> at
  least 1, asked for at least one item, calls \<open>consume\<close> exactly \<open>N\<close> times and then returns
  from \<open>continuous_consumption\<close> with nothing consumed.
\<close>

lemma retries_bounded:
  "(I w \<and> 0 \<le> N \<and>
    (\<forall>w item. I w \<longrightarrow> \<not> fst (Producer_produce net pid w item) \<and>
                        I (snd (Producer_produce net pid w item))) \<longrightarrow>
      snd (Producer_continuous_production net pid (Some xs) N w) =
        concat (map (replicate (nat N)) xs)) \<and>
   (J v \<and> 1 \<le> N \<and> 0 < max_items \<and>
    (\<forall>v. J v \<longrightarrow> fst (Consumer_consume cnet cid v) = PyNone \<and>
                  J (snd (Consumer_consume cnet cid v))) \<longrightarrow>
      (\<exists>v'. Consumer_continuous_consumption cnet cid max_items N v = Some (0, v', nat N)))"
proof (intro conjI impI)
  assume a: "I w \<and> 0 \<le> N \<and>
    (\<forall>w item. I w \<longrightarrow> \<not> fst (Producer_produce net pid w item) \<and>
                        I (snd (Producer_produce net pid w item)))"
  then have "\<forall>w item. I w \<longrightarrow> \<not> fst (Producer_produce net pid w item) \<and>
                        I (snd (Producer_produce net pid w item))" and "I w"
    by blast+
  from production_loop_all_fail[OF this, of N xs "[]"]
  show "snd (Producer_continuous_production net pid (Some xs) N w) =
        concat (map (replicate (nat N)) xs)"
    by (simp add: Producer_continuous_production_def)
next
  assume a: "J v \<and> 1 \<le> N \<and> 0 < max_items \<and>
    (\<forall>v. J v \<longrightarrow> fst (Consumer_consume cnet cid v) = PyNone \<and>
                  J (snd (Consumer_consume cnet cid v)))"
  then have "\<forall>v. J v \<longrightarrow> fst (Consumer_consume cnet cid v) = PyNone \<and>
                  J (snd (Consumer_consume cnet cid v))" and "J v" and "1 \<le> N" and "0 < max_items"
    by blast+
  from consumption_all_fail[OF this]
  show "\<exists>v'. Consumer_continuous_consumption cnet cid max_items N v = Some (0, v', nat N)" .
qed

lemma retries_bounded_on_server:
  "snd (Producer_continuous_production server_transport (PyStr ''1'')
          (Some [PyStr ''b'', PyStr ''c'']) 2
          \<lparr> buffer_size = 1, server_buffer = \<lparr> maxsize = 1, items = [PyStr ''a''] \<rparr>,
            lock = False, producer_count = 0, consumer_count = 0 \<rparr>) =
     [PyStr ''b'', PyStr ''b'', PyStr ''c'', PyStr ''c''] \<and>
   (\<exists>v'. Consumer_continuous_consumption server_transport (PyStr ''1'') 10 2
            (SharedBufferServer_init 1) = Some (0, v', 2))"
  using
    retries_bounded[of "\<lambda>s. \<not> lock s \<and> Queue_full (server_buffer s)"
        "\<lparr> buffer_size = 1, server_buffer = \<lparr> maxsize = 1, items = [PyStr ''a''] \<rparr>,
            lock = False, producer_count = 0, consumer_count = 0 \<rparr>" 2
        server_transport "PyStr ''1''" "[PyStr ''b'', PyStr ''c'']"
        "\<lambda>s. \<not> lock s \<and> Queue_empty (server_buffer s)" "SharedBufferServer_init 1"
        10 server_transport "PyStr ''1''"]
  by (simp add: full_server_rejects empty_server_rejects SharedBufferServer_init_def
      Queue_init_def Queue_full_def Queue_empty_def qsize_def numeral_2_eq_2)

text \<open>
  C6 (retry exhaustion). The consumer does not keep the retry bound when \<open>max_retries\<close> is
  0. \<open>Consumer.continuous_consumption(max_items=1, max_retries=0)\<close>, here against an empty
  server, makes no attempt and never returns: the inner loop is skipped, so the \<open>return\<close>
  of its exhausted branch is not reached, and the \<open>else\<close> branch after it sends the outer
  loop round again with nothing changed. \<open>Producer.continuous_production\<close> with
  \<open>max_retries=0\<close>, on the same server and two items, makes no attempt either, gives up
  both items and returns.
\<close>

theorem retry_exhaustion_zero_retries:
  "Consumer_continuous_consumption server_transport (PyStr ''1'') 1 0
     (SharedBufferServer_init 1) = None \<and>
   Producer_continuous_production server_transport (PyStr ''1'')
     (Some [PyStr ''a'', PyStr ''b'']) 0 (SharedBufferServer_init 1) =
     (SharedBufferServer_init 1, [])"
proof
  show "Consumer_continuous_consumption server_transport (PyStr ''1'') 1 0
     (SharedBufferServer_init 1) = None"
    by (rule consumption_never_returns) simp_all
  have "\<And>item w log. produce_retries server_transport (PyStr ''1'') 0 item False 0 w log =
      (False, 0, w, log)"
    by (subst produce_retries.simps) simp
  then show "Producer_continuous_production server_transport (PyStr ''1'')
     (Some [PyStr ''a'', PyStr ''b'']) 0 (SharedBufferServer_init 1) =
     (SharedBufferServer_init 1, [])"
    by (simp add: Producer_continuous_production_def)
qed

section \<open>Handlers interleaved on the server\<close>

text \<open>
  A connection handled alone is the handler's steps taken without interruption:
  \<open>handle_client\<close> gives what six steps of the handler give.
\<close>

lemma handle_client_is_run_handler:
  "run_handler 6 s (Recv d) = map_option (\<lambda>(s', r). (s', Closed r)) (handle_client s d)"
  by (cases d)
    (auto simp: numeral_eq_Suc handle_client_def handle_producer_def handle_consumer_def
      Queue_put_def Queue_get_def qsize_def Let_def split: option.splits list.splits)

lemma enqueued_le_length: "sum_list (map enqueued hs) \<le> int (length hs)"
proof (induction hs)
  case Nil
  then show ?case by simp
next
  case (Cons h hs)
  have "enqueued h \<le> 1" by (cases h) auto
  with Cons show ?case by simp
qed

lemma enqueued_others:
  assumes "i < length hs"
  shows "sum_list (map enqueued hs) \<le> enqueued (hs ! i) + int (length hs) - 1"
proof -
  have "sum_list (map enqueued (hs[i := Closed None])) \<le> int (length (hs[i := Closed None]))"
    by (rule enqueued_le_length)
  then show ?thesis using assms by (simp add: sum_list_map_update)
qed

lemma closed_enqueued: "list_all closed hs \<Longrightarrow> sum_list (map enqueued hs) = int (length hs)"
proof (induction hs)
  case Nil
  then show ?case by simp
next
  case (Cons h hs)
  then show ?case by (cases h) auto
qed

lemma list_all_update: "list_all P xs \<Longrightarrow> P x \<Longrightarrow> list_all P (xs[i := x])"
  by (auto simp: list_all_iff dest: set_update_subset_insert[THEN subsetD])

lemma handler_step_prod:
  assumes "prod_ok h" and "handler_step s h = Some (s', h')"
    and "qsize (server_buffer s) < maxsize (server_buffer s) \<or> enqueued h = 1"
    and "in_with_block h = 1 \<longrightarrow> lock s"
  shows "prod_ok h' \<and> maxsize (server_buffer s') = maxsize (server_buffer s) \<and>
     qsize (server_buffer s') - enqueued h' = qsize (server_buffer s) - enqueued h \<and>
     (if lock s' then 1 else 0) - in_with_block h' = (if lock s then 1 else (0::int)) - in_with_block h"
proof (cases h)
  case (Recv d)
  with assms show ?thesis by (cases d) (auto simp: Let_def split: if_splits)
next
  case (Closed r)
  with assms show ?thesis by simp
qed (use assms in \<open>auto simp: Queue_full_def Queue_put_def qsize_def accepted_def
      split: if_splits option.splits\<close>)

lemma in_with_block_nonneg: "0 \<le> in_with_block h"
  by (cases h) auto

lemma in_with_block_member:
  "i < length hs \<Longrightarrow> in_with_block (hs ! i) \<le> sum_list (map in_with_block hs)"
  by (rule sum_list_member_le[OF in_with_block_nonneg])

lemma srv_step_prod_inv:
  assumes "srv_step cfg cfg'" and "prod_inv C n cfg" and "int n \<le> C"
  shows "prod_inv C n cfg'"
  using assms
proof (induction rule: srv_step.induct)
  case (accept s d pending hs)
  then show ?case by (simp add: prod_inv_def)
next
  case (handle i hs s s' h pending)
  from handle(3) have ok: "prod_ok (hs ! i)"
    using handle(1) by (simp add: prod_inv_def list_all_length)
  from handle(3) have q: "qsize (server_buffer s) = sum_list (map enqueued hs)"
    and m: "maxsize (server_buffer s) = C" and l: "length pending + length hs = n"
    and k: "(if lock s then 1 else 0) = sum_list (map in_with_block hs)"
    by (simp_all add: prod_inv_def)
  have e01: "enqueued (hs ! i) = 0 \<or> enqueued (hs ! i) = 1"
    by (cases "hs ! i") auto
  have room: "qsize (server_buffer s) < maxsize (server_buffer s) \<or> enqueued (hs ! i) = 1"
    using enqueued_others[OF handle(1)] q m l handle(4) e01 by auto
  have held: "in_with_block (hs ! i) = 1 \<longrightarrow> lock s"
    using in_with_block_member[OF handle(1)] k by (auto split: if_splits)
  from handler_step_prod[OF ok handle(2) room held] handle(1) handle(3) q m l k
  show ?case
    by (auto simp: prod_inv_def sum_list_map_update list_all_update)
qed

lemma serving_prod_inv:
  assumes "serving C ds cfg" and "list_all produce_request ds" and "int (length ds) \<le> C"
  shows "prod_inv C (length ds) cfg"
  using assms(1) unfolding serving_def
proof (induction rule: rtranclp_induct)
  case base
  then show ?case using assms(2)
    by (simp add: prod_inv_def SharedBufferServer_init_def Queue_init_def qsize_def)
next
  case (step y z)
  from srv_step_prod_inv[OF step(2) step(3) assms(3)] show ?case .
qed

lemma srv_move_step: "srv_move cfg m = Some cfg' \<Longrightarrow> srv_step cfg cfg'"
proof (cases cfg)
  case (fields s pending hs)
  assume a: "srv_move cfg m = Some cfg'"
  show ?thesis
  proof (cases m)
    case Accept
    with a fields show ?thesis
      by (cases pending) (auto intro: srv_step.accept)
  next
    case (Handle i)
    with a fields show ?thesis
      by (auto intro: srv_step.handle split: if_splits option.splits)
  qed
qed

lemma srv_schedule_steps: "srv_schedule cfg ms = Some cfg' \<Longrightarrow> srv_step\<^sup>*\<^sup>* cfg cfg'"
proof (induction ms arbitrary: cfg)
  case Nil
  then show ?case by simp
next
  case (Cons m ms)
  then obtain cfg1 where m: "srv_move cfg m = Some cfg1" and r: "srv_schedule cfg1 ms = Some cfg'"
    by (auto split: option.splits)
  from srv_move_step[OF m] Cons.IH[OF r] show ?case
    by (rule converse_rtranclp_into_rtranclp)
qed

lemma srv_schedule_serving:
  "srv_schedule (SharedBufferServer_init C, ds, []) ms = Some cfg \<Longrightarrow> serving C ds cfg"
  unfolding serving_def by (rule srv_schedule_steps)

lemma prod_room:
  assumes "prod_inv C n (s, pending, hs)" and "int n \<le> C" and "i < length hs"
  shows "qsize (server_buffer s) < maxsize (server_buffer s) \<or> enqueued (hs ! i) = 1"
proof -
  have e01: "enqueued (hs ! i) = 0 \<or> enqueued (hs ! i) = 1"
    by (cases "hs ! i") auto
  from assms(1) have "qsize (server_buffer s) = sum_list (map enqueued hs)"
    and "maxsize (server_buffer s) = C" and "length pending + length hs = n"
    by (simp_all add: prod_inv_def)
  with enqueued_others[OF assms(3)] assms(2) e01 show ?thesis by auto
qed

lemma handler_can_step:
  assumes "prod_ok h" and "\<not> closed h"
    and "in_with_block h = 1 \<or> \<not> lock s"
    and "qsize (server_buffer s) < maxsize (server_buffer s) \<or> enqueued h = 1"
  shows "\<exists>s' h'. handler_step s h = Some (s', h')"
proof (cases h)
  case (Recv d)
  then show ?thesis by (cases d) (auto simp: Let_def)
qed (use assms in \<open>auto simp: Queue_put_def Queue_full_def\<close>)

lemma someone_in_with_block:
  "0 < sum_list (map in_with_block hs) \<Longrightarrow> \<exists>j<length hs. in_with_block (hs ! j) = 1"
proof (induction hs)
  case Nil
  then show ?case by simp
next
  case (Cons h hs)
  have h01: "in_with_block h = 0 \<or> in_with_block h = 1" by (cases h) auto
  show ?case
  proof (cases "in_with_block h = 1")
    case True
    then show ?thesis by (intro exI[of _ 0]) simp
  next
    case False
    with h01 Cons.prems have "0 < sum_list (map in_with_block hs)" by simp
    from Cons.IH[OF this] obtain j where "j < length hs" "in_with_block (hs ! j) = 1" by blast
    then show ?thesis by (intro exI[of _ "Suc j"]) simp
  qed
qed

lemma prod_progress:
  assumes "prod_inv C n (s, pending, hs)" and "int n \<le> C"
    and "\<not> (pending = [] \<and> list_all closed hs)"
  shows "\<exists>cfg'. srv_step (s, pending, hs) cfg'"
proof (cases pending)
  case (Cons d rest)
  then show ?thesis by (auto intro: srv_step.accept)
next
  case Nil
  with assms(3) obtain i where i: "i < length hs" and nc: "\<not> closed (hs ! i)"
    by (auto simp: list_all_length)
  from assms(1) have oks: "list_all prod_ok hs"
    and k: "(if lock s then 1 else 0) = sum_list (map in_with_block hs)"
    by (simp_all add: prod_inv_def)
  show ?thesis
  proof (cases "lock s")
    case True
    with k have "0 < sum_list (map in_with_block hs)" by simp
    from someone_in_with_block[OF this] obtain j
      where j: "j < length hs" and b: "in_with_block (hs ! j) = 1" by blast
    from b have "\<not> closed (hs ! j)" by (cases "hs ! j") auto
    moreover from oks j have "prod_ok (hs ! j)" by (simp add: list_all_length)
    ultimately obtain s' h' where "handler_step s (hs ! j) = Some (s', h')"
      using handler_can_step[of "hs ! j" s] b prod_room[OF assms(1) assms(2) j] by blast
    with j show ?thesis by (blast intro: srv_step.handle)
  next
    case False
    from oks i have "prod_ok (hs ! i)" by (simp add: list_all_length)
    then obtain s' h' where "handler_step s (hs ! i) = Some (s', h')"
      using handler_can_step[of "hs ! i" s] nc False prod_room[OF assms(1) assms(2) i] by blast
    with i show ?thesis by (blast intro: srv_step.handle)
  qed
qed

lemma closed_prod_ok: "list_all closed hs \<Longrightarrow> list_all prod_ok hs \<Longrightarrow> list_all closed_ok hs"
proof (induction hs)
  case Nil
  then show ?case by simp
next
  case (Cons h hs)
  then show ?case by (cases h; cases "case h of Closed r \<Rightarrow> r | _ \<Rightarrow> None") auto
qed

text \<open>
  C8 (no cross-talk under concurrency). A server with \<open>buffer_size = 2\<close> and an empty
  buffer receives two connections, each with a producer request, and handles them in
  threads of their own, their steps interleaved in any order. Then at most one handler
  is inside its \<open>with self.lock\<close> block at any time and the buffer never holds more than
  2 items; when both handlers have finished the buffer holds exactly 2 items and both
  replies have status \<open>success\<close>; and as long as a connection is not accepted or a handler
  has not finished, the accept loop or some handler can move, so that no run is stuck
  before that.
\<close>

theorem no_cross_talk:
  "produce_request d1 \<and> produce_request d2 \<and> serving 2 [d1, d2] (s, pending, hs) \<longrightarrow>
     sum_list (map in_with_block hs) \<le> 1 \<and>
     qsize (server_buffer s) \<le> 2 \<and>
     (pending = [] \<and> list_all closed hs \<longrightarrow>
        qsize (server_buffer s) = 2 \<and> list_all closed_ok hs) \<and>
     (\<not> (pending = [] \<and> list_all closed hs) \<longrightarrow> (\<exists>cfg'. srv_step (s, pending, hs) cfg'))"
proof (intro impI)
  assume a: "produce_request d1 \<and> produce_request d2 \<and> serving 2 [d1, d2] (s, pending, hs)"
  then have "serving 2 [d1, d2] (s, pending, hs)" and "list_all produce_request [d1, d2]"
    by simp_all
  from serving_prod_inv[OF this] have inv: "prod_inv 2 2 (s, pending, hs)"
    by (simp add: numeral_2_eq_2)
  then have oks: "list_all prod_ok hs" and n: "length pending + length hs = 2"
    and q: "qsize (server_buffer s) = sum_list (map enqueued hs)"
    and k: "(if lock s then 1 else 0) = sum_list (map in_with_block hs)"
    by (simp_all add: prod_inv_def)
  from k have mx: "sum_list (map in_with_block hs) \<le> 1"
    by (auto split: if_splits)
  from q n enqueued_le_length[of hs] have le: "qsize (server_buffer s) \<le> 2"
    by simp
  have fin: "pending = [] \<and> list_all closed hs \<longrightarrow>
        qsize (server_buffer s) = 2 \<and> list_all closed_ok hs"
    using closed_enqueued[of hs] closed_prod_ok[OF _ oks] q n by auto
  have prog: "\<not> (pending = [] \<and> list_all closed hs) \<longrightarrow> (\<exists>cfg'. srv_step (s, pending, hs) cfg')"
    using prod_progress[OF inv] by simp
  from mx le fin prog
  show "sum_list (map in_with_block hs) \<le> 1 \<and>
     qsize (server_buffer s) \<le> 2 \<and>
     (pending = [] \<and> list_all closed hs \<longrightarrow>
        qsize (server_buffer s) = 2 \<and> list_all closed_ok hs) \<and>
     (\<not> (pending = [] \<and> list_all closed hs) \<longrightarrow> (\<exists>cfg'. srv_step (s, pending, hs) cfg'))"
    by blast
qed

theorem no_cross_talk_witness:
  "produce_request (Request [''type'' \<mapsto> PyStr ''producer'', ''item'' \<mapsto> PyStr ''a'']) \<and>
   produce_request (Request [''type'' \<mapsto> PyStr ''producer'', ''item'' \<mapsto> PyStr ''b'']) \<and>
   serving 2
     [Request [''type'' \<mapsto> PyStr ''producer'', ''item'' \<mapsto> PyStr ''a''],
      Request [''type'' \<mapsto> PyStr ''producer'', ''item'' \<mapsto> PyStr ''b'']]
     (\<lparr> buffer_size = 2,
        server_buffer = \<lparr> maxsize = 2, items = [PyStr ''b'', PyStr ''a''] \<rparr>,
        lock = False, producer_count = 0, consumer_count = 0 \<rparr>,
      [],
      [Closed (Some [(''status'', PyStr ''success''),
                     (''message'', PyStr (''Item '' @ [CHR 0x22] @ ''a'' @ [CHR 0x22]
                                           @ '' added to buffer'')),
                     (''buffer_size'', PyInt 2)]),
       Closed (Some [(''status'', PyStr ''success''),
                     (''message'', PyStr (''Item '' @ [CHR 0x22] @ ''b'' @ [CHR 0x22]
                                           @ '' added to buffer'')),
                     (''buffer_size'', PyInt 1)])]) \<and>
   qsize \<lparr> maxsize = 2, items = [PyStr ''b'', PyStr ''a''] \<rparr> = 2 \<and>
   serving 2
     [Request [''type'' \<mapsto> PyStr ''producer'', ''item'' \<mapsto> PyStr ''a''],
      Request [''type'' \<mapsto> PyStr ''producer'', ''item'' \<mapsto> PyStr ''b'']]
     (SharedBufferServer_init 2,
      [Request [''type'' \<mapsto> PyStr ''producer'', ''item'' \<mapsto> PyStr ''a''],
       Request [''type'' \<mapsto> PyStr ''producer'', ''item'' \<mapsto> PyStr ''b'']],
      []) \<and>
   (\<exists>cfg'. srv_step
      (SharedBufferServer_init 2,
       [Request [''type'' \<mapsto> PyStr ''producer'', ''item'' \<mapsto> PyStr ''a''],
        Request [''type'' \<mapsto> PyStr ''producer'', ''item'' \<mapsto> PyStr ''b'']],
       []) cfg')"
proof -
  let ?d1 = "Request [''type'' \<mapsto> PyStr ''producer'', ''item'' \<mapsto> PyStr ''a'']"
  let ?d2 = "Request [''type'' \<mapsto> PyStr ''producer'', ''item'' \<mapsto> PyStr ''b'']"
  let ?s = "\<lparr> buffer_size = 2,
        server_buffer = \<lparr> maxsize = 2, items = [PyStr ''b'', PyStr ''a''] \<rparr>,
        lock = False, producer_count = 0, consumer_count = 0 \<rparr>"
  let ?hs = "[Closed (Some [(''status'', PyStr ''success''),
                     (''message'', PyStr (''Item '' @ [CHR 0x22] @ ''a'' @ [CHR 0x22]
                                           @ '' added to buffer'')),
                     (''buffer_size'', PyInt 2)]),
       Closed (Some [(''status'', PyStr ''success''),
                     (''message'', PyStr (''Item '' @ [CHR 0x22] @ ''b'' @ [CHR 0x22]
                                           @ '' added to buffer'')),
                     (''buffer_size'', PyInt 1)])]"
  have "srv_schedule (SharedBufferServer_init 2, [?d1, ?d2], [])
          [Accept, Handle 0, Accept, Handle 1, Handle 1, Handle 1, Handle 1, Handle 1,
           Handle 1, Handle 0, Handle 0, Handle 0, Handle 0, Handle 0] =
        Some (?s, [], ?hs)"
    by (simp add: SharedBufferServer_init_def Queue_init_def dict_get_def Queue_full_def
        Queue_put_def qsize_def py_str_def Let_def)
  then have fin: "serving 2 [?d1, ?d2] (?s, [], ?hs)"
    by (rule srv_schedule_serving)
  have ini: "serving 2 [?d1, ?d2] (SharedBufferServer_init 2, [?d1, ?d2], [])"
    by (simp add: serving_def)
  show ?thesis
    using fin ini
      no_cross_talk[of ?d1 ?d2 ?s "[]" ?hs]
      no_cross_talk[of ?d1 ?d2 "SharedBufferServer_init 2" "[?d1, ?d2]" "[]"]
    by (simp add: dict_get_def qsize_def)
qed

end
